theory Spec2Isabelle
  imports Complex_Main "HOL-Library.Log_Nat"
begin

section \<open>Data model of the wellness tracker's core engine (class RehmaHealthOS)\<close>

text \<open>
  Calendar dates are the strings \<open>YYYY-MM-DD\<close> in the source. The engine compares them as
  strings (\<open>e.date <= dateStr\<close>), and turns them into timestamps (\<open>new Date(e.date)\<close>) to
  subtract them. For well-formed dates both orders agree, so a date is modelled by its day
  number: the timestamp of \<open>new Date(s)\<close> divided by 86400000. \<open>isoDate y m d\<close> is the day
  number of the date written \<open>y-m-d\<close> (day 0 is 1970-01-01).
\<close>

type_synonym date = int

definition isoDate :: "int \<Rightarrow> int \<Rightarrow> int \<Rightarrow> date" where
  "isoDate y m d =
     (let y' = (if m \<le> 2 then y - 1 else y);
          era = y' div 400;
          yoe = y' - era * 400;
          mp = (m + 9) mod 12;
          doy = (153 * mp + 2) div 5 + d - 1;
          doe = yoe * 365 + yoe div 4 - yoe div 100 + doy
      in era * 146097 + doe - 719468)"

text \<open>
  Times are milliseconds since the epoch, as the time value of a \<open>Date\<close>. The time zone
  of the browser is part of the environment: \<open>utcOffset z t\<close> is the offset of local time
  from UTC at the instant \<open>t\<close>, and \<open>localOffset z l\<close> is the offset that the platform
  applies to the local time value \<open>l\<close> when it turns it back into an instant (at a local time
  that a change skips or repeats, the offset from before the change).
\<close>

record zone =
  utcOffset :: "int \<Rightarrow> int"
  localOffset :: "int \<Rightarrow> int"

definition msPerDay :: int where
  "msPerDay = 86400000"

definition utc :: zone where
  "utc = \<lparr>utcOffset = (\<lambda>t. 0), localOffset = (\<lambda>l. 0)\<rparr>"

text \<open>
  Europe/Berlin during 2024: one hour ahead of UTC, two hours from 2024-03-31 01:00 UTC
  until 2024-10-27 01:00 UTC. Local times from 03:00 on 2024-03-31 until 03:00 on 2024-10-27
  are read with the offset of two hours.
\<close>

definition berlin2024 :: zone where
  "berlin2024 =
     \<lparr>utcOffset = (\<lambda>t. if isoDate 2024 3 31 * msPerDay + 3600000 \<le> t \<and>
                            t < isoDate 2024 10 27 * msPerDay + 3600000
                         then 7200000 else 3600000),
      localOffset = (\<lambda>l. if isoDate 2024 3 31 * msPerDay + 10800000 \<le> l \<and>
                              l < isoDate 2024 10 27 * msPerDay + 10800000
                           then 7200000 else 3600000)\<rparr>"

datatype kind = Start | End

record event =
  date :: date
  type :: kind

datatype phase = Menstrual | Follicular | Ovulation | Luteal

subsection \<open>Numbers\<close>

text \<open>
  The numbers of the metabolic engine are JavaScript numbers: binary64 values, the two
  infinities and NaN. A finite number is modelled by its rational value. Zero has no sign in
  the model: the engine never divides by a number that can be zero, so the sign of a zero
  cannot show in its results.

  \<open>expo x\<close> is the binary exponent of \<open>x\<close>, the integer \<open>e\<close> with \<open>2^e <= |x| < 2^(e+1)\<close>.
  \<open>round64 x\<close> is the binary64 value nearest to \<open>x\<close>, ties going to the even significand:
  a multiple of \<open>2^(e-52)\<close>, where the exponent is not taken below -1022 (the subnormal
  range). \<open>binary64 x\<close> is the number an operation with the exact result \<open>x\<close> returns,
  which is infinite when the rounded value leaves the range.
\<close>

datatype number = Fin rat | PosInf | NegInf | NaN

definition expo :: "rat \<Rightarrow> int" where
  "expo x =
     (let a = \<bar>x\<bar> in
      if 1 \<le> a then bitlen \<lfloor>a\<rfloor> - 1
      else
        (let k = bitlen \<lfloor>1 / a\<rfloor> in
         if a * 2 ^ nat (k - 1) = 1 then 1 - k else - k))"

definition roundHalfEven :: "rat \<Rightarrow> int" where
  "roundHalfEven x =
     (let n = \<lfloor>x\<rfloor>; r = x - of_int n in
      if r < 1 / 2 then n
      else if 1 / 2 < r then n + 1
      else if even n then n else n + 1)"

definition round64 :: "rat \<Rightarrow> rat" where
  "round64 x =
     (if x = 0 then 0
      else
        (let e = max (expo x) (- 1022);
             u = 2 powi (e - 52)
         in of_int (roundHalfEven (x / u)) * u))"

definition binary64 :: "rat \<Rightarrow> number" where
  "binary64 x =
     (let r = round64 x in
      if 2 ^ 1024 \<le> r then PosInf
      else if r \<le> - (2 ^ 1024) then NegInf
      else Fin r)"

text \<open>The arithmetic of JavaScript on numbers, each finite result rounded once.\<close>

definition sgnOf :: "number \<Rightarrow> int" where
  "sgnOf a = (case a of Fin x \<Rightarrow> (if 0 < x then 1 else if x < 0 then - 1 else 0)
                | PosInf \<Rightarrow> 1 | NegInf \<Rightarrow> - 1 | NaN \<Rightarrow> 0)"

definition nneg :: "number \<Rightarrow> number" where
  "nneg a = (case a of Fin x \<Rightarrow> Fin (- x) | PosInf \<Rightarrow> NegInf | NegInf \<Rightarrow> PosInf
               | NaN \<Rightarrow> NaN)"

definition nadd :: "number \<Rightarrow> number \<Rightarrow> number" where
  "nadd a b =
     (if a = NaN \<or> b = NaN then NaN
      else
        (case (a, b) of
           (Fin x, Fin y) \<Rightarrow> binary64 (x + y)
         | (Fin x, i) \<Rightarrow> i
         | (i, Fin y) \<Rightarrow> i
         | (i, j) \<Rightarrow> if i = j then i else NaN))"

definition nsub :: "number \<Rightarrow> number \<Rightarrow> number" where
  "nsub a b = nadd a (nneg b)"

definition nmul :: "number \<Rightarrow> number \<Rightarrow> number" where
  "nmul a b =
     (if a = NaN \<or> b = NaN then NaN
      else
        (case (a, b) of
           (Fin x, Fin y) \<Rightarrow> binary64 (x * y)
         | (i, j) \<Rightarrow>
             (let s = sgnOf i * sgnOf j in
              if s = 0 then NaN else if 0 < s then PosInf else NegInf)))"

definition ndiv :: "number \<Rightarrow> number \<Rightarrow> number" where
  "ndiv a b =
     (if a = NaN \<or> b = NaN then NaN
      else
        (case (a, b) of
           (Fin x, Fin y) \<Rightarrow>
             if y = 0 then (if x = 0 then NaN else if 0 < x then PosInf else NegInf)
             else binary64 (x / y)
         | (Fin x, i) \<Rightarrow> Fin 0
         | (i, Fin y) \<Rightarrow> if 0 \<le> y then i else nneg i
         | (i, j) \<Rightarrow> NaN))"

text \<open>\<open>Math.floor\<close>, and what \<open>||\<close> takes as true: every number but zero and NaN.\<close>

definition mathFloor :: "number \<Rightarrow> number" where
  "mathFloor a = (case a of Fin x \<Rightarrow> Fin (of_int \<lfloor>x\<rfloor>) | PosInf \<Rightarrow> PosInf
                    | NegInf \<Rightarrow> NegInf | NaN \<Rightarrow> NaN)"

definition truthy :: "number \<Rightarrow> bool" where
  "truthy a = (case a of Fin x \<Rightarrow> x \<noteq> 0 | PosInf \<Rightarrow> True | NegInf \<Rightarrow> True
                 | NaN \<Rightarrow> False)"

text \<open>
  \<open>x || d\<close> where \<open>x\<close> may be missing: \<open>d\<close> when \<open>x\<close> is missing, zero or NaN.
\<close>

definition orElse :: "number option \<Rightarrow> number \<Rightarrow> number" where
  "orElse x d = (case x of None \<Rightarrow> d | Some v \<Rightarrow> if truthy v then v else d)"

subsection \<open>The state\<close>

text \<open>
  A missing weight of the profile behaves as NaN in the arithmetic of the engine, and is
  modelled by it. The amounts of the nutrition and workout entries are modelled as exact
  rationals.
\<close>

record profile =
  weight :: number
  bodyFat :: "number option"
  activityLevel :: string

text \<open>
  The accumulator of \<open>getDailyStats\<close> is an object with the properties \<open>cals\<close>, \<open>p\<close>,
  \<open>c\<close>, \<open>f\<close> and \<open>fiber\<close>; a nutrition entry written by \<open>logFood\<close> has the same
  properties, and an id and a name.
\<close>

record macros =
  cals :: int
  p :: rat
  c :: rat
  f :: rat
  fiber :: rat

record food = macros +
  id :: nat
  name :: string

text \<open>
  \<open>logWorkout\<close> stores whatever object its caller passes, so a workout is modelled by its
  numeric properties: a map from property names to numbers.
\<close>

type_synonym workout = "string \<rightharpoonup> rat"

record logs =
  nutrition :: "date \<rightharpoonup> food list"
  workouts :: "date \<rightharpoonup> workout list"
  weightLog :: "date \<rightharpoonup> number"

record cycle =
  events :: "event list"
  avgLength :: int

record os =
  profile :: profile
  logs :: logs
  cycle :: cycle
  today :: date
  zone :: zone

definition ev :: "date \<Rightarrow> kind \<Rightarrow> event" where
  "ev d k = \<lparr>date = d, type = k\<rparr>"

section \<open>Cycle engine\<close>

subsection \<open>recalculateCycleStats\<close>

text \<open>
  The loop over \<open>i < events.length - 1\<close>: the head of the list is \<open>events[i]\<close>, its tail is
  \<open>events.slice(i + 1)\<close>, and the last event is never visited. The pair carried along is
  \<open>(totalDays, cycles)\<close>.
\<close>

definition isStart :: "event \<Rightarrow> bool" where
  "isStart e = (type e = Start)"

fun statsLoop :: "event list \<Rightarrow> int \<times> int \<Rightarrow> int \<times> int" where
  "statsLoop [] acc = acc"
| "statsLoop [e] acc = acc"
| "statsLoop (e # es) (totalDays, cycles) =
     (if type e = Start then
        (case find isStart es of
           Some nextStart \<Rightarrow>
             (let days = date nextStart - date e in
              if days > 15 \<and> days < 50
              then statsLoop es (totalDays + days, cycles + 1)
              else statsLoop es (totalDays, cycles))
         | None \<Rightarrow> statsLoop es (totalDays, cycles))
      else statsLoop es (totalDays, cycles))"

text \<open>\<open>Math.round\<close> rounds to the nearest integer, a half towards plus infinity.\<close>

definition mathRound :: "rat \<Rightarrow> int" where
  "mathRound x = \<lfloor>x + 1 / 2\<rfloor>"

definition recalculateCycleStats :: "os \<Rightarrow> os" where
  "recalculateCycleStats st =
     (let evs = events (cycle st) in
      if length evs < 3 then st
      else
        (case statsLoop evs (0, 0) of
           (totalDays, cycles) \<Rightarrow>
             if cycles > 0
             then st\<lparr>cycle := (cycle st)\<lparr>avgLength := mathRound (of_int totalDays / of_int cycles)\<rparr>\<rparr>
             else st))"

subsection \<open>sortCycleEvents, closeOpenCycles, logPeriodStart, logPeriodEnd\<close>

text \<open>
  \<open>Array.prototype.sort\<close> with the comparator \<open>new Date(a.date) - new Date(b.date)\<close> is a
  stable sort by date, as \<open>sort_key\<close> is. Saving and broadcasting write to the browser's
  storage and to listeners only: they leave the state as it is and are not modelled.
\<close>

definition sortCycleEvents :: "os \<Rightarrow> os" where
  "sortCycleEvents st =
     recalculateCycleStats (st\<lparr>cycle := (cycle st)\<lparr>events := sort_key date (events (cycle st))\<rparr>\<rparr>)"

definition push :: "event \<Rightarrow> os \<Rightarrow> os" where
  "push e st = st\<lparr>cycle := (cycle st)\<lparr>events := events (cycle st) @ [e]\<rparr>\<rparr>"

text \<open>
  The synthetic end date of \<open>closeOpenCycles\<close>: \<open>new Date(lastEvent.date)\<close> is midnight
  UTC of the start date; \<open>d.setDate(d.getDate() + 5)\<close> moves the local calendar day of that
  instant five days on and keeps the local time of day; \<open>d.toISOString().split('T')[0]\<close>
  is the UTC date of the result.
\<close>

definition addFiveDays :: "zone \<Rightarrow> date \<Rightarrow> date" where
  "addFiveDays z s =
     (let t = s * msPerDay;
          localTime = t + utcOffset z t;
          newDate = localTime + 5 * msPerDay;
          u = newDate - localOffset z newDate
      in u div msPerDay)"

definition closeOpenCycles :: "date \<Rightarrow> os \<Rightarrow> os" where
  "closeOpenCycles newStartDate st =
     (let evs = events (cycle st) in
      if evs = [] then st
      else
        (let lastEvent = last evs in
         if type lastEvent = Start \<and> date lastEvent < newStartDate then
           (let d = addFiveDays (zone st) (date lastEvent) in
            if d < newStartDate then push (ev d End) st else st)
         else st))"

definition logPeriodStart :: "date \<Rightarrow> os \<Rightarrow> os" where
  "logPeriodStart dateStr st =
     (case find (\<lambda>e. date e = dateStr \<and> type e = Start) (events (cycle st)) of
        Some exists \<Rightarrow> st
      | None \<Rightarrow> sortCycleEvents (push (ev dateStr Start) (closeOpenCycles dateStr st)))"

text \<open>
  The backward scan of \<open>logPeriodEnd\<close>: \<open>findTarget evs d n\<close> looks at the indices below
  \<open>n\<close>, from \<open>n - 1\<close> down to 0, and returns the first one that holds a start on or before
  \<open>d\<close> whose next event is missing or is a start; \<open>None\<close> is the source's \<open>-1\<close>.
\<close>

fun findTarget :: "event list \<Rightarrow> date \<Rightarrow> nat \<Rightarrow> nat option" where
  "findTarget evs dateStr 0 = None"
| "findTarget evs dateStr (Suc i) =
     (if type (evs ! i) = Start \<and> date (evs ! i) \<le> dateStr \<and>
         (length evs \<le> Suc i \<or> type (evs ! Suc i) = Start)
      then Some i
      else findTarget evs dateStr i)"

definition logPeriodEnd :: "date \<Rightarrow> os \<Rightarrow> os" where
  "logPeriodEnd dateStr st =
     (case find (\<lambda>e. date e = dateStr \<and> type e = End) (events (cycle st)) of
        Some exists \<Rightarrow> st
      | None \<Rightarrow>
          (case findTarget (events (cycle st)) dateStr (length (events (cycle st))) of
             Some targetIndex \<Rightarrow> sortCycleEvents (push (ev dateStr End) st)
           | None \<Rightarrow> st))"

subsection \<open>getPhaseForDate\<close>

text \<open>
  The first loop keeps the last event on or before the date and stops at the first later
  one. The branch for a last event of type end only computes a value that is never used.
\<close>

fun lastEventLoop :: "event list \<Rightarrow> date \<Rightarrow> event option \<Rightarrow> event option" where
  "lastEventLoop [] tDate lastEvent = lastEvent"
| "lastEventLoop (e # es) tDate lastEvent =
     (if date e \<le> tDate then lastEventLoop es tDate (Some e) else lastEvent)"

text \<open>The remainder operator \<open>%\<close> of JavaScript takes the sign of the dividend.\<close>

definition jsRem :: "int \<Rightarrow> int \<Rightarrow> int" where
  "jsRem a b = sgn a * (\<bar>a\<bar> mod \<bar>b\<bar>)"

definition phaseOfCycleDay :: "int \<Rightarrow> phase" where
  "phaseOfCycleDay currentCycleDay =
     (if currentCycleDay \<le> 5 then Menstrual
      else if currentCycleDay \<le> 13 then Follicular
      else if currentCycleDay \<le> 17 then Ovulation
      else Luteal)"

definition phaseMath :: "os \<Rightarrow> date \<Rightarrow> phase" where
  "phaseMath st tDate =
     (case find (\<lambda>e. type e = Start \<and> date e \<le> tDate) (rev (events (cycle st))) of
        None \<Rightarrow> Follicular
      | Some lastStart \<Rightarrow>
          (let daysSinceStart = (tDate - date lastStart) + 1;
               avgLen = (if avgLength (cycle st) = 0 then 29 else avgLength (cycle st));
               currentCycleDay = jsRem (daysSinceStart - 1) avgLen + 1
           in phaseOfCycleDay currentCycleDay))"

definition getPhaseForDate :: "os \<Rightarrow> date \<Rightarrow> phase" where
  "getPhaseForDate st tDate =
     (case lastEventLoop (events (cycle st)) tDate None of
        Some lastEvent \<Rightarrow>
          if type lastEvent = Start \<and> tDate - date lastEvent \<le> 7 then Menstrual
          else phaseMath st tDate
      | None \<Rightarrow> phaseMath st tDate)"

section \<open>Metabolic engine\<close>

text \<open>
  The local constants of \<open>calculateKatchMcArdle\<close> are definitions of their own, under the
  source's names. A numeric literal of the source is the binary64 value nearest to it.
\<close>

definition currentWeight :: "os \<Rightarrow> number" where
  "currentWeight st = orElse (weightLog (logs st) (today st)) (weight (profile st))"

definition bodyFatDecimal :: "os \<Rightarrow> number" where
  "bodyFatDecimal st = ndiv (orElse (bodyFat (profile st)) (Fin 25)) (Fin 100)"

definition lbm :: "os \<Rightarrow> number" where
  "lbm st = nmul (currentWeight st) (nsub (Fin 1) (bodyFatDecimal st))"

definition bmr :: "os \<Rightarrow> number" where
  "bmr st = nadd (Fin 370) (nmul (binary64 21.6) (lbm st))"

definition multipliers :: "string \<rightharpoonup> number" where
  "multipliers =
     [''sedentary'' \<mapsto> binary64 1.2, ''light'' \<mapsto> binary64 1.375,
      ''moderate'' \<mapsto> binary64 1.55, ''active'' \<mapsto> binary64 1.725,
      ''athlete'' \<mapsto> binary64 1.9]"

text \<open>
  \<open>multipliers\<close> is an object literal, so a lookup also finds the properties it inherits
  from \<open>Object.prototype\<close>. What it finds there is a function or an object: true for
  \<open>||\<close>, and NaN as soon as it is multiplied.
\<close>

definition inheritedKeys :: "string list" where
  "inheritedKeys =
     [''constructor'', ''hasOwnProperty'', ''isPrototypeOf'', ''propertyIsEnumerable'',
      ''toLocaleString'', ''toString'', ''valueOf'', ''__proto__'', ''__defineGetter__'',
      ''__defineSetter__'', ''__lookupGetter__'', ''__lookupSetter__'']"

definition activity :: "os \<Rightarrow> number" where
  "activity st =
     (case multipliers (activityLevel (profile st)) of
        Some m \<Rightarrow> m
      | None \<Rightarrow>
          if activityLevel (profile st) \<in> set inheritedKeys then NaN else binary64 1.55)"

definition phaseBurn :: "os \<Rightarrow> int" where
  "phaseBurn st = (if getPhaseForDate st (today st) = Luteal then 150 else 0)"

definition calculateKatchMcArdle :: "os \<Rightarrow> number" where
  "calculateKatchMcArdle st =
     mathFloor (nadd (nmul (bmr st) (activity st)) (Fin (of_int (phaseBurn st))))"

section \<open>Daily logs\<close>

text \<open>\<open>Date.now()\<close> is read from the clock: the model takes it as the argument \<open>now\<close>.\<close>

text \<open>
  \<open>x || []\<close> on a list that may be missing, and \<open>x || 0\<close> on a number that may be
  missing. On the numbers of a nutrition entry, which \<open>logFood\<close> always writes, \<open>x || 0\<close>
  is \<open>x\<close>.
\<close>

definition orEmpty :: "'a list option \<Rightarrow> 'a list" where
  "orEmpty x = (case x of None \<Rightarrow> [] | Some l \<Rightarrow> l)"

definition orZero :: "rat option \<Rightarrow> rat" where
  "orZero x = (case x of None \<Rightarrow> 0 | Some v \<Rightarrow> v)"

definition logWorkout :: "date \<Rightarrow> workout \<Rightarrow> rat \<Rightarrow> os \<Rightarrow> os" where
  "logWorkout dateStr workout now st =
     st\<lparr>logs := (logs st)\<lparr>workouts :=
       (workouts (logs st))
         (dateStr \<mapsto> orEmpty (workouts (logs st) dateStr) @ [[''id'' \<mapsto> now] ++ workout])\<rparr>\<rparr>"

record stats =
  macros :: macros
  burn :: rat

definition getDailyStats :: "os \<Rightarrow> date \<Rightarrow> stats" where
  "getDailyStats st dateStr =
     (let nLogs = orEmpty (nutrition (logs st) dateStr);
          wLogs = orEmpty (workouts (logs st) dateStr)
      in \<lparr>macros =
            foldl (\<lambda>acc item.
                     \<lparr>cals = cals acc + cals item, p = p acc + p item, c = c acc + c item,
                      f = f acc + f item, fiber = fiber acc + fiber item\<rparr>)
                  \<lparr>cals = 0, p = 0, c = 0, f = 0, fiber = 0\<rparr> nLogs,
          burn = foldl (\<lambda>acc item. acc + orZero (item ''burn'')) 0 wLogs\<rparr>)"

section \<open>Sequences of calls\<close>

datatype call = LogPeriodStart date | LogPeriodEnd date

fun perform :: "call \<Rightarrow> os \<Rightarrow> os" where
  "perform (LogPeriodStart d) st = logPeriodStart d st"
| "perform (LogPeriodEnd d) st = logPeriodEnd d st"

definition performAll :: "call list \<Rightarrow> os \<Rightarrow> os" where
  "performAll cs st = fold perform cs st"

text \<open>
  The state of \<open>getFactoryDefaults\<close>, as far as the model has it, in a browser whose time
  zone is UTC.
\<close>

definition factoryDefaults :: "date \<Rightarrow> os" where
  "factoryDefaults t =
     \<lparr>profile = \<lparr>weight = Fin 65, bodyFat = Some (Fin 22), activityLevel = ''moderate''\<rparr>,
      logs = \<lparr>nutrition = Map.empty, workouts = Map.empty, weightLog = Map.empty\<rparr>,
      cycle = \<lparr>events = [], avgLength = 29\<rparr>,
      today = t,
      zone = utc\<rparr>"

section \<open>Notions of the specification\<close>

text \<open>
  The day deltas between consecutive start events of a log, in the words of the
  specification: for every start, the day difference to the next start after it.
\<close>

fun deltas :: "int list \<Rightarrow> int list" where
  "deltas (a # b # xs) = (b - a) # deltas (b # xs)"
| "deltas xs = []"

definition startDeltas :: "event list \<Rightarrow> int list" where
  "startDeltas evs = deltas (map date (filter isStart evs))"

definition accepted :: "int \<Rightarrow> bool" where
  "accepted days = (15 < days \<and> days < 50)"

text \<open>
  An open start that \<open>logPeriodEnd\<close> may close, at index \<open>i\<close> of the log. \<open>eligibleAt\<close>
  is the test of the source's scan: the next event is missing or is a start.
  \<open>eligibleAsClaimed\<close> follows the words of the specification: the next event, if any, is
  not itself a start.
\<close>

definition eligibleAt :: "event list \<Rightarrow> date \<Rightarrow> nat \<Rightarrow> bool" where
  "eligibleAt evs d i =
     (type (evs ! i) = Start \<and> date (evs ! i) \<le> d \<and>
      (length evs \<le> Suc i \<or> type (evs ! Suc i) = Start))"

definition eligibleAsClaimed :: "event list \<Rightarrow> date \<Rightarrow> nat \<Rightarrow> bool" where
  "eligibleAsClaimed evs d i =
     (type (evs ! i) = Start \<and> date (evs ! i) \<le> d \<and>
      (length evs \<le> Suc i \<or> type (evs ! Suc i) \<noteq> Start))"

text \<open>
  The calories a workout entry burned, in the words of the specification: the value of its
  property \<open>caloriesBurned\<close>, 0 when it has none.
\<close>

definition caloriesBurned :: "workout \<Rightarrow> rat" where
  "caloriesBurned item = orZero (item ''caloriesBurned'')"

text \<open>
  A time zone whose offsets stay within a day of UTC, as those of every real zone do.
\<close>

definition boundedZone :: "zone \<Rightarrow> bool" where
  "boundedZone z = (\<forall>t. \<bar>utcOffset z t\<bar> \<le> msPerDay \<and> \<bar>localOffset z t\<bar> \<le> msPerDay)"


definition hasEndOn :: "event list \<Rightarrow> date \<Rightarrow> bool" where
  "hasEndOn evs d = list_ex (\<lambda>e. date e = d \<and> type e = End) evs"

section \<open>Properties of the event log\<close>

subsection \<open>What the mutations do to the log\<close>

lemma events_recalculateCycleStats:
  "events (cycle (recalculateCycleStats st)) = events (cycle st)"
  by (simp add: recalculateCycleStats_def Let_def split: prod.splits)

lemma events_sortCycleEvents:
  "events (cycle (sortCycleEvents st)) = sort_key date (events (cycle st))"
  by (simp add: sortCycleEvents_def events_recalculateCycleStats)

lemma events_push: "events (cycle (push e st)) = events (cycle st) @ [e]"
  by (simp add: push_def)

lemma zone_recalculateCycleStats: "zone (recalculateCycleStats st) = zone st"
  by (simp add: recalculateCycleStats_def Let_def split: prod.splits)

lemma zone_sortCycleEvents: "zone (sortCycleEvents st) = zone st"
  by (simp add: sortCycleEvents_def zone_recalculateCycleStats)

lemma zone_closeOpenCycles: "zone (closeOpenCycles d st) = zone st"
  by (simp add: closeOpenCycles_def push_def Let_def)

lemma zone_logPeriodStart: "zone (logPeriodStart d st) = zone st"
  by (simp add: logPeriodStart_def zone_sortCycleEvents zone_closeOpenCycles push_def
      split: option.splits)



text \<open>In a zone with bounded offsets the synthetic end date lies after the start.\<close>

lemma addFiveDays_later:
  assumes "boundedZone z"
  shows "s < addFiveDays z s"
proof -
  let ?t = "s * msPerDay"
  let ?l = "?t + utcOffset z ?t + 5 * msPerDay"
  from assms have "\<bar>utcOffset z ?t\<bar> \<le> msPerDay" and "\<bar>localOffset z ?l\<bar> \<le> msPerDay"
    unfolding boundedZone_def by blast+
  then have "(s + 3) * msPerDay \<le> ?l - localOffset z ?l"
    by (simp add: algebra_simps)
  then have "(s + 3) * msPerDay div msPerDay \<le> (?l - localOffset z ?l) div msPerDay"
    by (intro zdiv_mono1) (simp_all add: msPerDay_def)
  then have "s + 3 \<le> addFiveDays z s"
    by (simp add: addFiveDays_def Let_def msPerDay_def)
  then show ?thesis
    by simp
qed

text \<open>Where the offset of the zone never changes, the synthetic end is five days on.\<close>

lemma addFiveDays_fixed_offset:
  assumes "\<forall>t. utcOffset z t = k" and "\<forall>l. localOffset z l = k"
  shows "addFiveDays z s = s + 5"
proof -
  have "(s * msPerDay + 5 * msPerDay) div msPerDay = s + 5"
    by (simp add: msPerDay_def)
  with assms show ?thesis
    by (simp add: addFiveDays_def Let_def)
qed

lemma events_logPeriodStart:
  "events (cycle (logPeriodStart d st)) =
     (case find (\<lambda>e. date e = d \<and> type e = Start) (events (cycle st)) of
        Some e \<Rightarrow> events (cycle st)
      | None \<Rightarrow>
          sort_key date
            ((if events (cycle st) \<noteq> [] \<and> type (last (events (cycle st))) = Start \<and>
                 date (last (events (cycle st))) < d \<and>
                 addFiveDays (zone st) (date (last (events (cycle st)))) < d
              then events (cycle st) @
                     [ev (addFiveDays (zone st) (date (last (events (cycle st))))) End]
              else events (cycle st)) @ [ev d Start]))"
  by (simp add: logPeriodStart_def closeOpenCycles_def events_sortCycleEvents events_push Let_def
      split: option.splits)






subsection \<open>The log stays sorted, and no event is logged twice\<close>

lemma sorted_le_last:
  "sorted (map date evs) \<Longrightarrow> e \<in> set evs \<Longrightarrow> date e \<le> date (last evs)"
proof (induction evs)
  case Nil
  then show ?case by simp
next
  case (Cons x xs)
  then show ?case by (cases "xs = []") auto
qed












subsection \<open>Logging a start twice\<close>

text \<open>
  C7. For every date and every state, a second \<open>logPeriodStart\<close> on the same date changes
  nothing: the first call leaves a start on that date in the log, and a call that finds one
  returns at once. The whole state is the same, and so is the event log.
\<close>

theorem logPeriodStart_idempotent:
  "logPeriodStart d (logPeriodStart d st) = logPeriodStart d st"
proof (cases "find (\<lambda>e. date e = d \<and> type e = Start) (events (cycle st))")
  case (Some e)
  then show ?thesis by (simp add: logPeriodStart_def)
next
  case None
  let ?st' = "sortCycleEvents (push (ev d Start) (closeOpenCycles d st))"
  have "ev d Start \<in> set (events (cycle ?st'))"
    by (simp add: events_sortCycleEvents events_push)
  moreover have "date (ev d Start) = d \<and> type (ev d Start) = Start"
    by (simp add: ev_def)
  ultimately have "find (\<lambda>e. date e = d \<and> type e = Start) (events (cycle ?st')) \<noteq> None"
    unfolding find_None_iff by blast
  then have "logPeriodStart d ?st' = ?st'"
    by (auto simp: logPeriodStart_def split: option.splits)
  with None show ?thesis by (simp add: logPeriodStart_def)
qed

subsection \<open>The statistics loop and the deltas between consecutive starts\<close>

lemma find_filter:
  "find P xs = (case filter P xs of [] \<Rightarrow> None | x # ys \<Rightarrow> Some x)"
  by (induction xs) simp_all

lemma startDeltas_not_start:
  "type e \<noteq> Start \<Longrightarrow> startDeltas (e # es) = startDeltas es"
  by (simp add: startDeltas_def isStart_def)

lemma startDeltas_start_none:
  "type e = Start \<Longrightarrow> find isStart es = None \<Longrightarrow>
   startDeltas (e # es) = [] \<and> startDeltas es = []"
  by (simp add: startDeltas_def isStart_def find_filter split: list.splits)

lemma startDeltas_start_some:
  "type e = Start \<Longrightarrow> find isStart es = Some n \<Longrightarrow>
   startDeltas (e # es) = (date n - date e) # startDeltas es"
  by (auto simp add: startDeltas_def isStart_def find_filter split: list.splits)

lemma startDeltas_single: "startDeltas [e] = []"
  by (simp add: startDeltas_def)

text \<open>
  The loop adds up exactly the accepted deltas between consecutive starts, and counts them.
  That it never visits the last event loses nothing: no start follows the last event.
\<close>

lemma statsLoop_startDeltas:
  "statsLoop evs (t, n) =
     (t + sum_list (filter accepted (startDeltas evs)),
      n + int (length (filter accepted (startDeltas evs))))"
proof (induction evs "(t, n)" arbitrary: t n rule: statsLoop.induct)
  case 1
  show ?case by (simp add: startDeltas_def)
next
  case (2 e)
  show ?case by (simp add: startDeltas_single)
next
  case (3 e e' es totalDays cycles)
  let ?es = "e' # es"
  show ?case
  proof (cases "type e = Start")
    case False
    with 3 show ?thesis by (simp add: startDeltas_not_start)
  next
    case True
    show ?thesis
    proof (cases "find isStart ?es")
      case None
      with True 3 startDeltas_start_none [OF True None] show ?thesis by simp
    next
      case (Some nx)
      with True 3 startDeltas_start_some [OF True Some] show ?thesis
        by (simp add: accepted_def Let_def)
    qed
  qed
qed

text \<open>
  C5. Recomputing the statistics of a log of at least three events sets the average cycle
  length to \<open>Math.round\<close> of the mean of the accepted deltas between consecutive starts, the
  accepted deltas being those strictly between 15 and 50; with none accepted the state stays
  as it is. When the consecutive starts lie 28, 29, 5 and 31 days apart, 28, 29 and 31 are
  accepted and 5 is rejected: 88 days in 3 cycles, and the average becomes 29 whatever it
  was. \<open>Math.round\<close> gives the nearest integer, a half going up: deltas of 28 and 29 alone
  give 29 as well.
\<close>

theorem outlier_rejection:
  assumes "3 \<le> length (events (cycle st))"
  shows "recalculateCycleStats st =
      (if filter (\<lambda>days. 15 < days \<and> days < 50) (startDeltas (events (cycle st))) = [] then st
       else st\<lparr>cycle := (cycle st)\<lparr>avgLength := mathRound
         (of_int (sum_list (filter (\<lambda>days. 15 < days \<and> days < 50)
                    (startDeltas (events (cycle st)))))
          / of_int (int (length (filter (\<lambda>days. 15 < days \<and> days < 50)
                    (startDeltas (events (cycle st)))))))\<rparr>\<rparr>)
    \<and> (startDeltas (events (cycle st)) = [28, 29, 5, 31] \<longrightarrow>
          filter (\<lambda>days. 15 < days \<and> days < 50) (startDeltas (events (cycle st))) = [28, 29, 31]
          \<and> statsLoop (events (cycle st)) (0, 0) = (28 + 29 + 31, 3)
          \<and> mathRound ((28 + 29 + 31) / 3) = 29
          \<and> recalculateCycleStats st = st\<lparr>cycle := (cycle st)\<lparr>avgLength := 29\<rparr>\<rparr>)
    \<and> (startDeltas (events (cycle st)) = [28, 29] \<longrightarrow>
          recalculateCycleStats st = st\<lparr>cycle := (cycle st)\<lparr>avgLength := 29\<rparr>\<rparr>)
    \<and> (startDeltas (events (cycle st)) = [15, 16, 49, 50] \<longrightarrow>
          recalculateCycleStats st = st\<lparr>cycle := (cycle st)\<lparr>avgLength := 33\<rparr>\<rparr>)
    \<and> of_int (mathRound x) \<le> x + 1 / 2 \<and> x + 1 / 2 < of_int (mathRound x) + 1"
proof -
  let ?evs = "events (cycle st)"
  let ?A = "filter (\<lambda>days. 15 < days \<and> days < 50) (startDeltas ?evs)"
  have acc: "filter accepted (startDeltas ?evs) = ?A"
    by (simp add: accepted_def [abs_def])
  have loop: "statsLoop ?evs (0, 0) = (sum_list ?A, int (length ?A))"
    by (simp add: statsLoop_startDeltas acc)
  from assms have n3: "\<not> length ?evs < 3"
    by simp
  have gen: "recalculateCycleStats st =
      (if ?A = [] then st
       else st\<lparr>cycle := (cycle st)\<lparr>avgLength := mathRound
         (of_int (sum_list ?A) / of_int (int (length ?A)))\<rparr>\<rparr>)"
    using n3 by (simp add: recalculateCycleStats_def Let_def loop)
  have r1: "mathRound (88 / 3) = 29"
    unfolding mathRound_def by (rule floor_unique) simp_all
  have r2: "mathRound (57 / 2) = 29"
    unfolding mathRound_def by (rule floor_unique) simp_all
  have r3: "mathRound (65 / 2) = 33"
    unfolding mathRound_def by (rule floor_unique) simp_all
  have c1: "?A = [28, 29, 31] \<and> statsLoop ?evs (0, 0) = (28 + 29 + 31, 3)
      \<and> mathRound ((28 + 29 + 31) / 3) = 29
      \<and> recalculateCycleStats st = st\<lparr>cycle := (cycle st)\<lparr>avgLength := 29\<rparr>\<rparr>"
    if "startDeltas ?evs = [28, 29, 5, 31]"
    using gen loop r1 by (simp add: that)
  have c2: "recalculateCycleStats st = st\<lparr>cycle := (cycle st)\<lparr>avgLength := 29\<rparr>\<rparr>"
    if "startDeltas ?evs = [28, 29]"
    using gen r2 by (simp add: that)
  have c3: "recalculateCycleStats st = st\<lparr>cycle := (cycle st)\<lparr>avgLength := 33\<rparr>\<rparr>"
    if "startDeltas ?evs = [15, 16, 49, 50]"
    using gen r3 by (simp add: that)
  have b: "of_int (mathRound x) \<le> x + 1 / 2 \<and> x + 1 / 2 < of_int (mathRound x) + 1"
    unfolding mathRound_def by linarith
  from gen c1 c2 c3 b show ?thesis
    by blast
qed

theorem outlier_rejection_witness:
  "3 \<le> length [ev 0 Start, ev 5 End, ev 28 Start, ev 33 End, ev 57 Start, ev 62 Start,
       ev 67 End, ev 93 Start]
   \<and> startDeltas [ev 0 Start, ev 5 End, ev 28 Start, ev 33 End, ev 57 Start, ev 62 Start,
       ev 67 End, ev 93 Start] = [28, 29, 5, 31]
   \<and> events (cycle (performAll (map LogPeriodStart [0, 28, 57, 62, 93]) (factoryDefaults 0)))
     = [ev 0 Start, ev 5 End, ev 28 Start, ev 33 End, ev 57 Start, ev 62 Start,
       ev 67 End, ev 93 Start]
   \<and> avgLength (cycle (recalculateCycleStats
       ((factoryDefaults 0)\<lparr>cycle := \<lparr>events =
          [ev 0 Start, ev 5 End, ev 28 Start, ev 33 End, ev 57 Start, ev 62 Start,
           ev 67 End, ev 93 Start], avgLength = 40\<rparr>\<rparr>))) = 29"
proof -
  let ?evs = "[ev 0 Start, ev 5 End, ev 28 Start, ev 33 End, ev 57 Start, ev 62 Start,
       ev 67 End, ev 93 Start]"
  let ?st = "(factoryDefaults 0)\<lparr>cycle := \<lparr>events = ?evs, avgLength = 40\<rparr>\<rparr>"
  let ?s0 = "factoryDefaults 0"
  let ?s1 = "logPeriodStart 0 ?s0"
  let ?s2 = "logPeriodStart 28 ?s1"
  let ?s3 = "logPeriodStart 57 ?s2"
  let ?s4 = "logPeriodStart 62 ?s3"
  let ?s5 = "logPeriodStart 93 ?s4"
  have five: "addFiveDays utc s = s + 5" for s
    by (rule addFiveDays_fixed_offset [of _ 0]) (simp_all add: utc_def)
  have z: "zone ?s0 = utc" "zone ?s1 = utc" "zone ?s2 = utc" "zone ?s3 = utc" "zone ?s4 = utc"
    by (simp_all add: zone_logPeriodStart factoryDefaults_def)
  have e0: "events (cycle ?s0) = []"
    by (simp add: factoryDefaults_def)
  have e1: "events (cycle ?s1) = [ev 0 Start]"
    by (subst events_logPeriodStart) (simp add: e0 z five ev_def)
  have e2: "events (cycle ?s2) = [ev 0 Start, ev 5 End, ev 28 Start]"
    by (subst events_logPeriodStart) (simp add: e1 z five ev_def)
  have e3: "events (cycle ?s3) = [ev 0 Start, ev 5 End, ev 28 Start, ev 33 End, ev 57 Start]"
    by (subst events_logPeriodStart) (simp add: e2 z five ev_def)
  have e4: "events (cycle ?s4) =
      [ev 0 Start, ev 5 End, ev 28 Start, ev 33 End, ev 57 Start, ev 62 Start]"
    by (subst events_logPeriodStart) (simp add: e3 z five ev_def)
  have e5: "events (cycle ?s5) = ?evs"
    by (subst events_logPeriodStart) (simp add: e4 z five ev_def)
  have "performAll (map LogPeriodStart [0, 28, 57, 62, 93]) ?s0 = ?s5"
    by (simp add: performAll_def)
  with e5 have reach: "events (cycle
      (performAll (map LogPeriodStart [0, 28, 57, 62, 93]) (factoryDefaults 0))) = ?evs"
    by (simp only:)
  have evs: "events (cycle ?st) = ?evs"
    by simp
  have len: "3 \<le> length ?evs"
    by simp
  have ds: "startDeltas ?evs = [28, 29, 5, 31]"
    by (simp add: startDeltas_def isStart_def ev_def)
  have len': "3 \<le> length (events (cycle ?st))"
    unfolding evs by (rule len)
  have ds': "startDeltas (events (cycle ?st)) = [28, 29, 5, 31]"
    unfolding evs by (rule ds)
  from outlier_rejection [OF len'] ds'
  have "recalculateCycleStats ?st = ?st\<lparr>cycle := (cycle ?st)\<lparr>avgLength := 29\<rparr>\<rparr>"
    by blast
  then have "avgLength (cycle (recalculateCycleStats ?st)) = 29"
    by simp
  with len ds reach show ?thesis
    by blast
qed

text \<open>
  C10. When the log has at least three events and no two consecutive starts lie strictly
  between 15 and 50 days apart, recomputing the statistics changes nothing: the stored
  average cycle length stays as it was, and so does the rest of the state.
\<close>

theorem recalculate_keeps_average:
  assumes "3 \<le> length (events (cycle st))"
    and "\<forall>days \<in> set (startDeltas (events (cycle st))). \<not> (15 < days \<and> days < 50)"
  shows "recalculateCycleStats st = st"
proof -
  from assms(2) have "filter accepted (startDeltas (events (cycle st))) = []"
    by (simp add: accepted_def filter_empty_conv)
  then have "statsLoop (events (cycle st)) (0, 0) = (0, 0)"
    by (simp add: statsLoop_startDeltas)
  then show ?thesis
    by (simp add: recalculateCycleStats_def Let_def)
qed

theorem recalculate_keeps_average_witness:
  "3 \<le> length [ev 0 Start, ev 5 End, ev 10 Start, ev 70 Start]
   \<and> startDeltas [ev 0 Start, ev 5 End, ev 10 Start, ev 70 Start] = [10, 60]
   \<and> recalculateCycleStats
       ((factoryDefaults 0)\<lparr>cycle := \<lparr>events = [ev 0 Start, ev 5 End, ev 10 Start, ev 70 Start],
          avgLength = 29\<rparr>\<rparr>)
     = (factoryDefaults 0)\<lparr>cycle := \<lparr>events = [ev 0 Start, ev 5 End, ev 10 Start, ev 70 Start],
          avgLength = 29\<rparr>\<rparr>"
proof -
  let ?evs = "[ev 0 Start, ev 5 End, ev 10 Start, ev 70 Start]"
  let ?st = "(factoryDefaults 0)\<lparr>cycle := \<lparr>events = ?evs, avgLength = 29\<rparr>\<rparr>"
  have ds: "startDeltas ?evs = [10, 60]"
    by (simp add: startDeltas_def isStart_def ev_def)
  have len: "3 \<le> length (events (cycle ?st))"
    by simp
  have none: "\<forall>days \<in> set (startDeltas (events (cycle ?st))). \<not> (15 < days \<and> days < 50)"
    by (simp add: ds)
  from recalculate_keeps_average [OF len none] ds show ?thesis
    by simp
qed

subsection \<open>Closing an open period when a new one starts\<close>

lemma no_start_on_later_date:
  assumes "sorted (map date evs)" and "evs \<noteq> []" and "date (last evs) < d"
  shows "find (\<lambda>e. date e = d \<and> type e = Start) evs = None"
proof -
  have "date e \<noteq> d" if "e \<in> set evs" for e
    using sorted_le_last [OF assms(1) that] assms(3) by simp
  then show ?thesis
    unfolding find_None_iff by blast
qed

lemma sort_append_later:
  assumes "sorted (map date evs)" and "sorted (map date new)"
    and "\<forall>e \<in> set evs. \<forall>n \<in> set new. date e \<le> date n"
  shows "sort_key date (evs @ new) = evs @ new"
  using assms by (intro sort_key_id_if_sorted) (simp add: sorted_append)

text \<open>
  What \<open>logPeriodStart\<close> does when the last event of the sorted log is a start dated before
  the new date: the new log is the old one, then an end on the synthetic end date if that
  date is strictly before the new date (and no end otherwise), then the new start.
\<close>

lemma logPeriodStart_after_open_start:
  assumes "events (cycle st) \<noteq> []" and "sorted (map date (events (cycle st)))"
    and "type (last (events (cycle st))) = Start" and "date (last (events (cycle st))) < d"
    and "boundedZone (zone st)"
  shows "events (cycle (logPeriodStart d st)) =
     (if addFiveDays (zone st) (date (last (events (cycle st)))) < d
      then events (cycle st) @
             [ev (addFiveDays (zone st) (date (last (events (cycle st))))) End, ev d Start]
      else events (cycle st) @ [ev d Start])"
proof -
  let ?evs = "events (cycle st)"
  let ?s = "date (last ?evs)"
  let ?d' = "addFiveDays (zone st) ?s"
  note ne = assms(1) and srt = assms(2) and st = assms(3) and lt = assms(4)
  have nf: "find (\<lambda>e. date e = d \<and> type e = Start) ?evs = None"
    by (rule no_start_on_later_date [OF srt ne lt])
  have le: "\<forall>e \<in> set ?evs. date e \<le> ?s"
    using sorted_le_last [OF srt] by blast
  have later: "?s < ?d'"
    by (rule addFiveDays_later [OF assms(5)])
  show ?thesis
  proof (cases "?d' < d")
    case True
    have "sort_key date (?evs @ [ev ?d' End, ev d Start]) = ?evs @ [ev ?d' End, ev d Start]"
      using True le lt later by (intro sort_append_later [OF srt]) (auto simp: ev_def)
    with True ne st lt nf show ?thesis
      by (simp add: logPeriodStart_def closeOpenCycles_def events_sortCycleEvents events_push
          Let_def)
  next
    case False
    have "sort_key date (?evs @ [ev d Start]) = ?evs @ [ev d Start]"
      using le lt by (intro sort_append_later [OF srt]) (auto simp: ev_def)
    with False ne st lt nf show ?thesis
      by (simp add: logPeriodStart_def closeOpenCycles_def events_sortCycleEvents events_push
          Let_def)
  qed
qed

text \<open>
  C3. The claim: from a log that holds only the start of 2024-01-01, \<open>logPeriodStart\<close> on
  2024-01-20 gives start 2024-01-01, end 2024-01-06, start 2024-01-20; and in general the
  synthetic end is dated five days after the open start, and is added only if that day is
  strictly before the new date. The code does the first, here in the zone of Berlin. It
  misses the second where the clocks go forward within the five days: it adds the five days
  in local time and reads the date back in UTC. In Berlin the end for a start on 2024-03-28
  is dated 2024-04-01, four days on, and \<open>logPeriodStart\<close> on 2024-04-02, the fifth day,
  adds that end where the claim has none.
\<close>

theorem auto_close_spring_forward:
  "events (cycle (logPeriodStart (isoDate 2024 1 20)
      ((factoryDefaults (isoDate 2024 1 20))
         \<lparr>cycle := \<lparr>events = [ev (isoDate 2024 1 1) Start], avgLength = 29\<rparr>,
          zone := berlin2024\<rparr>)))
     = [ev (isoDate 2024 1 1) Start, ev (isoDate 2024 1 6) End, ev (isoDate 2024 1 20) Start]
   \<and> isoDate 2024 3 28 + 5 = isoDate 2024 4 2
   \<and> addFiveDays berlin2024 (isoDate 2024 3 28) = isoDate 2024 4 1
   \<and> events (cycle (logPeriodStart (isoDate 2024 4 2)
      ((factoryDefaults (isoDate 2024 4 2))
         \<lparr>cycle := \<lparr>events = [ev (isoDate 2024 3 28) Start], avgLength = 29\<rparr>,
          zone := berlin2024\<rparr>)))
     = [ev (isoDate 2024 3 28) Start, ev (isoDate 2024 4 1) End, ev (isoDate 2024 4 2) Start]"
  by (simp add: logPeriodStart_def closeOpenCycles_def events_sortCycleEvents events_push
      addFiveDays_def berlin2024_def msPerDay_def ev_def isoDate_def Let_def)

subsection \<open>Rounding a quotient of day counts\<close>

lemma mathRound_of_int_div:
  assumes "0 < n"
  shows "mathRound (of_int t / of_int n) = (2 * t + n) div (2 * n)"
proof -
  from assms have "(of_int t / of_int n + 1 / 2 :: rat) = of_int (2 * t + n) / of_int (2 * n)"
    by (simp add: field_simps)
  then show ?thesis
    by (simp only: mathRound_def floor_divide_of_int_eq)
qed

lemma mathRound_numeral_div:
  "mathRound (numeral a / numeral b) = (2 * numeral a + numeral b) div (2 * numeral b)"
  using mathRound_of_int_div [of "numeral b" "numeral a"] by simp

lemma mathRound_numeral: "mathRound (numeral a) = numeral a"
  using mathRound_of_int_div [of 1 "numeral a"] by simp

subsection \<open>Ending a period with no open start\<close>

lemma findTarget_None:
  "findTarget evs d n = None \<longleftrightarrow> (\<forall>i<n. \<not> eligibleAt evs d i)"
  by (induction n) (auto simp: eligibleAt_def less_Suc_eq)

text \<open>
  C8, as the code has it. The scan of \<open>logPeriodEnd\<close> takes a start on or before the date
  as open when the event after it is missing or is itself a start. When the log holds no end
  on the date and no such start, the call changes nothing: the state (the event log and the
  average cycle length with it) is the one before, no end is recorded, and the model has no
  error to raise.
\<close>

theorem logPeriodEnd_noop:
  assumes "\<not> hasEndOn (events (cycle st)) d"
    and "\<forall>i < length (events (cycle st)). \<not> eligibleAt (events (cycle st)) d i"
  shows "logPeriodEnd d st = st \<and> \<not> hasEndOn (events (cycle (logPeriodEnd d st))) d"
proof -
  from assms(2) have "findTarget (events (cycle st)) d (length (events (cycle st))) = None"
    by (simp add: findTarget_None)
  then have "logPeriodEnd d st = st"
    by (simp add: logPeriodEnd_def split: option.splits)
  with assms(1) show ?thesis
    by simp
qed

theorem logPeriodEnd_noop_witness:
  "\<not> hasEndOn [ev 1 Start, ev 6 End, ev 20 Start] 10
   \<and> \<not> eligibleAt [ev 1 Start, ev 6 End, ev 20 Start] 10 0
   \<and> \<not> eligibleAt [ev 1 Start, ev 6 End, ev 20 Start] 10 1
   \<and> \<not> eligibleAt [ev 1 Start, ev 6 End, ev 20 Start] 10 2
   \<and> logPeriodEnd 10
       ((factoryDefaults 0)\<lparr>cycle := \<lparr>events = [ev 1 Start, ev 6 End, ev 20 Start],
          avgLength = 29\<rparr>\<rparr>)
     = (factoryDefaults 0)\<lparr>cycle := \<lparr>events = [ev 1 Start, ev 6 End, ev 20 Start],
          avgLength = 29\<rparr>\<rparr>"
proof -
  let ?evs = "[ev 1 Start, ev 6 End, ev 20 Start]"
  let ?st = "(factoryDefaults 0)\<lparr>cycle := \<lparr>events = ?evs, avgLength = 29\<rparr>\<rparr>"
  have evs: "events (cycle ?st) = ?evs"
    by simp
  have e: "\<not> hasEndOn ?evs 10"
    by (simp add: hasEndOn_def ev_def)
  have n: "\<not> eligibleAt ?evs 10 0 \<and> \<not> eligibleAt ?evs 10 1 \<and> \<not> eligibleAt ?evs 10 2"
    by (simp add: eligibleAt_def ev_def)
  have "i = 0 \<or> i = 1 \<or> i = 2" if "i < length ?evs" for i
    using that by auto
  with n have a: "\<forall>i < length ?evs. \<not> eligibleAt ?evs 10 i"
    by blast
  from logPeriodEnd_noop [of ?st 10] e a have "logPeriodEnd 10 ?st = ?st"
    unfolding evs by blast
  with e n show ?thesis
    by blast
qed

text \<open>
  C8 as the claim states it fails. The claim takes a start as open when the event after it,
  if any, is not itself a start. In the log start day 1, start day 20 (reached by logging
  day 20 and then day 1), no start on or before day 10 is open in that sense and no end is on
  day 10; yet \<open>logPeriodEnd\<close> on day 10 records an end and moves the average to 19.
\<close>

theorem logPeriodEnd_claimed_noop_fails:
  "events (cycle (performAll [LogPeriodStart 20, LogPeriodStart 1] (factoryDefaults 0)))
     = [ev 1 Start, ev 20 Start]
   \<and> \<not> hasEndOn [ev 1 Start, ev 20 Start] 10
   \<and> \<not> eligibleAsClaimed [ev 1 Start, ev 20 Start] 10 0
   \<and> \<not> eligibleAsClaimed [ev 1 Start, ev 20 Start] 10 1
   \<and> cycle (logPeriodEnd 10 (performAll [LogPeriodStart 20, LogPeriodStart 1] (factoryDefaults 0)))
     = \<lparr>events = [ev 1 Start, ev 10 End, ev 20 Start], avgLength = 19\<rparr>
   \<and> hasEndOn (events (cycle
       (logPeriodEnd 10 (performAll [LogPeriodStart 20, LogPeriodStart 1] (factoryDefaults 0))))) 10"
  by (simp add: performAll_def factoryDefaults_def logPeriodStart_def logPeriodEnd_def
      closeOpenCycles_def push_def sortCycleEvents_def recalculateCycleStats_def ev_def
      hasEndOn_def eligibleAsClaimed_def isStart_def Let_def mathRound_numeral)

section \<open>Properties of the phase resolver\<close>

subsection \<open>The last event and the last start on or before a date\<close>

lemma lastEventLoop_later:
  "\<forall>x \<in> set later. d < date x \<Longrightarrow> lastEventLoop later d acc = acc"
  by (cases later) simp_all

lemma lastEventLoop_earlier:
  "\<forall>x \<in> set earlier. date x \<le> d \<Longrightarrow> date e \<le> d \<Longrightarrow> \<forall>x \<in> set later. d < date x \<Longrightarrow>
   lastEventLoop (earlier @ e # later) d acc = Some e"
  by (induction earlier arbitrary: acc) (simp_all add: lastEventLoop_later)

lemma find_append_list:
  "find P (xs @ ys) = (case find P xs of None \<Rightarrow> find P ys | Some x \<Rightarrow> Some x)"
  by (induction xs) simp_all

lemma lastStart_found:
  assumes "type e = Start" and "date e \<le> d" and "\<forall>x \<in> set later. d < date x"
  shows "find (\<lambda>x. type x = Start \<and> date x \<le> d) (rev (earlier @ e # later)) = Some e"
proof -
  from assms(3) have "find (\<lambda>x. type x = Start \<and> date x \<le> d) (rev later) = None"
    by (auto simp: find_None_iff)
  with assms(1,2) show ?thesis
    by (simp add: find_append_list)
qed

lemma jsRem_nonneg: "0 \<le> a \<Longrightarrow> jsRem a b = a mod \<bar>b\<bar>"
  by (cases "a = 0") (simp_all add: jsRem_def)

text \<open>
  What \<open>getPhaseForDate\<close> returns when the last event on or before the date is a start:
  Menstrual up to seven days after the start, the phase of the cycle day from then on.
\<close>

lemma getPhaseForDate_after_start:
  assumes "events (cycle st) = earlier @ ev s Start # later"
    and "\<forall>x \<in> set earlier. date x \<le> d" and "s \<le> d" and "\<forall>x \<in> set later. d < date x"
  shows "getPhaseForDate st d =
     (if d - s \<le> 7 then Menstrual
      else phaseOfCycleDay
        (jsRem (d - s) (if avgLength (cycle st) = 0 then 29 else avgLength (cycle st)) + 1))"
proof -
  have e: "type (ev s Start) = Start" "date (ev s Start) = s"
    by (simp_all add: ev_def)
  have l: "lastEventLoop (events (cycle st)) d None = Some (ev s Start)"
    unfolding assms(1) using assms(2,3,4) by (intro lastEventLoop_earlier) (simp_all add: e)
  have m: "find (\<lambda>x. type x = Start \<and> date x \<le> d) (rev (events (cycle st))) = Some (ev s Start)"
    unfolding assms(1) using assms(3,4) by (intro lastStart_found) (simp_all add: e)
  show ?thesis
    by (simp add: getPhaseForDate_def phaseMath_def l m e Let_def)
qed

subsection \<open>The phases of a cycle of 28 days\<close>

text \<open>
  C2. The log holds a start on 2024-01-01 and nothing else on or before the queried dates,
  and the average cycle length is 28. Then 2024-01-01 is Menstrual, 2024-01-15 is Ovulation
  and 2024-01-29 is Menstrual again. These are the phases of the cycle days 1, 15 and 1 that
  \<open>((daysSinceStart - 1) % avgLen) + 1\<close> gives, the start date being day 1; and every date
  more than seven days after the start, with no event in between, has the phase of its cycle
  day. The mapping is 1 to 5 Menstrual, 6 to 13 Follicular, 14 to 17 Ovulation, Luteal above.
\<close>

theorem phase_wrap:
  assumes "events (cycle st) = ev (isoDate 2024 1 1) Start # later"
    and "avgLength (cycle st) = 28"
    and "\<forall>x \<in> set later. isoDate 2024 1 29 < date x"
  shows "getPhaseForDate st (isoDate 2024 1 1) = Menstrual
    \<and> getPhaseForDate st (isoDate 2024 1 15) = Ovulation
    \<and> getPhaseForDate st (isoDate 2024 1 29) = Menstrual
    \<and> jsRem ((isoDate 2024 1 1 - isoDate 2024 1 1 + 1) - 1) 28 + 1 = 1
    \<and> jsRem ((isoDate 2024 1 15 - isoDate 2024 1 1 + 1) - 1) 28 + 1 = 15
    \<and> jsRem ((isoDate 2024 1 29 - isoDate 2024 1 1 + 1) - 1) 28 + 1 = 1
    \<and> phaseOfCycleDay 1 = Menstrual \<and> phaseOfCycleDay 15 = Ovulation
    \<and> (isoDate 2024 1 1 + 7 < d \<and> d \<le> isoDate 2024 1 29 \<longrightarrow>
         getPhaseForDate st d = phaseOfCycleDay (((d - isoDate 2024 1 1 + 1) - 1) mod 28 + 1))
    \<and> (\<forall>k. phaseOfCycleDay k =
         (if k \<le> 5 then Menstrual else if k \<le> 13 then Follicular
          else if k \<le> 17 then Ovulation else Luteal))"
proof -
  let ?s = "isoDate 2024 1 1"
  have evs: "events (cycle st) = [] @ ev ?s Start # later"
    by (simp add: assms(1))
  have dates: "?s = 19723" "isoDate 2024 1 15 = 19737" "isoDate 2024 1 29 = 19751"
    by (simp_all add: isoDate_def)
  have gen: "getPhaseForDate st d' =
      (if d' - ?s \<le> 7 then Menstrual else phaseOfCycleDay (jsRem (d' - ?s) 28 + 1))"
    if "?s \<le> d'" and "d' \<le> isoDate 2024 1 29" for d'
  proof -
    from that(2) assms(3) have "\<forall>x \<in> set later. d' < date x"
      by fastforce
    from getPhaseForDate_after_start [OF evs _ that(1) this] show ?thesis
      by (simp add: assms(2))
  qed
  have a: "getPhaseForDate st ?s = Menstrual"
    using gen [of ?s] by (simp add: dates)
  have b: "getPhaseForDate st (isoDate 2024 1 15) = Ovulation"
    using gen [of "isoDate 2024 1 15"] by (simp add: dates jsRem_def phaseOfCycleDay_def)
  have c: "getPhaseForDate st (isoDate 2024 1 29) = Menstrual"
    using gen [of "isoDate 2024 1 29"] by (simp add: dates jsRem_def phaseOfCycleDay_def)
  have days: "jsRem ((?s - ?s + 1) - 1) 28 + 1 = 1"
    "jsRem ((isoDate 2024 1 15 - ?s + 1) - 1) 28 + 1 = 15"
    "jsRem ((isoDate 2024 1 29 - ?s + 1) - 1) 28 + 1 = 1"
    by (simp_all add: dates jsRem_def)
  have far: "getPhaseForDate st d = phaseOfCycleDay (((d - ?s + 1) - 1) mod 28 + 1)"
    if "?s + 7 < d" and "d \<le> isoDate 2024 1 29"
    using gen [of d] that by (simp add: jsRem_nonneg)
  from a b c days far show ?thesis
    by (simp add: phaseOfCycleDay_def)
qed

theorem phase_wrap_witness:
  "events (cycle ((factoryDefaults (isoDate 2024 1 29))
      \<lparr>cycle := \<lparr>events = [ev (isoDate 2024 1 1) Start, ev (isoDate 2024 2 3) Start],
         avgLength = 28\<rparr>\<rparr>))
     = ev (isoDate 2024 1 1) Start # [ev (isoDate 2024 2 3) Start]
   \<and> isoDate 2024 1 29 < date (ev (isoDate 2024 2 3) Start)
   \<and> getPhaseForDate ((factoryDefaults (isoDate 2024 1 29))
      \<lparr>cycle := \<lparr>events = [ev (isoDate 2024 1 1) Start, ev (isoDate 2024 2 3) Start],
         avgLength = 28\<rparr>\<rparr>) (isoDate 2024 1 15) = Ovulation
   \<and> getPhaseForDate ((factoryDefaults (isoDate 2024 1 29))
      \<lparr>cycle := \<lparr>events = [ev (isoDate 2024 1 1) Start, ev (isoDate 2024 2 3) Start],
         avgLength = 28\<rparr>\<rparr>) (isoDate 2024 1 29) = Menstrual"
proof -
  let ?st = "(factoryDefaults (isoDate 2024 1 29))
      \<lparr>cycle := \<lparr>events = [ev (isoDate 2024 1 1) Start, ev (isoDate 2024 2 3) Start],
         avgLength = 28\<rparr>\<rparr>"
  have evs: "events (cycle ?st) = ev (isoDate 2024 1 1) Start # [ev (isoDate 2024 2 3) Start]"
    by simp
  have avg: "avgLength (cycle ?st) = 28"
    by simp
  have lt: "isoDate 2024 1 29 < date (ev (isoDate 2024 2 3) Start)"
    by (simp add: isoDate_def ev_def)
  then have later: "\<forall>x \<in> set [ev (isoDate 2024 2 3) Start]. isoDate 2024 1 29 < date x"
    by simp
  from phase_wrap [OF evs avg later] evs lt show ?thesis
    by blast
qed

subsection \<open>An open period stops being Menstrual\<close>

text \<open>
  C4, as the code has it. The last event on or before the date is a start. Up to seven days
  after that start (\<open>diff <= 7\<close>, the cycle days 1 to 8) the date is Menstrual on account of
  the open period. More than seven days after it (cycle day 9 or later) the open period no
  longer decides: the date has the phase of its cycle day. So the date seven days after the
  start is Menstrual, and the date eight days after it is Follicular when the average cycle
  length is above 8.
\<close>

theorem open_period_expires:
  assumes "events (cycle st) = earlier @ ev s Start # later"
    and "\<forall>x \<in> set earlier. date x \<le> d" and "s \<le> d" and "\<forall>x \<in> set later. d < date x"
  shows "(d - s \<le> 7 \<longrightarrow> getPhaseForDate st d = Menstrual)
    \<and> (7 < d - s \<longrightarrow> getPhaseForDate st d = phaseMath st d)
    \<and> (7 < d - s \<longrightarrow> getPhaseForDate st d = phaseOfCycleDay
          (jsRem (d - s) (if avgLength (cycle st) = 0 then 29 else avgLength (cycle st)) + 1))
    \<and> (d - s = 8 \<and> 8 < avgLength (cycle st) \<longrightarrow> getPhaseForDate st d = Follicular)"
proof -
  note r = getPhaseForDate_after_start [OF assms]
  have e: "type (ev s Start) = Start" "date (ev s Start) = s"
    by (simp_all add: ev_def)
  have l: "lastEventLoop (events (cycle st)) d None = Some (ev s Start)"
    unfolding assms(1) using assms(2,3,4) by (intro lastEventLoop_earlier) (simp_all add: e)
  have p: "getPhaseForDate st d = phaseMath st d" if "7 < d - s"
    using that by (simp add: getPhaseForDate_def l e)
  have f: "getPhaseForDate st d = Follicular" if "d - s = 8" and "8 < avgLength (cycle st)"
    using that r by (simp add: jsRem_nonneg phaseOfCycleDay_def)
  from r p f show ?thesis
    by simp
qed

theorem open_period_expires_witness:
  "events (cycle ((factoryDefaults 0)
      \<lparr>cycle := \<lparr>events = [ev 100 Start, ev 104 End, ev 130 Start], avgLength = 30\<rparr>\<rparr>))
     = [ev 100 Start, ev 104 End] @ ev 130 Start # []
   \<and> getPhaseForDate ((factoryDefaults 0)
      \<lparr>cycle := \<lparr>events = [ev 100 Start, ev 104 End, ev 130 Start], avgLength = 30\<rparr>\<rparr>) 137
     = Menstrual
   \<and> getPhaseForDate ((factoryDefaults 0)
      \<lparr>cycle := \<lparr>events = [ev 100 Start, ev 104 End, ev 130 Start], avgLength = 30\<rparr>\<rparr>) 138
     = Follicular"
proof -
  let ?st = "(factoryDefaults 0)
      \<lparr>cycle := \<lparr>events = [ev 100 Start, ev 104 End, ev 130 Start], avgLength = 30\<rparr>\<rparr>"
  have evs: "events (cycle ?st) = [ev 100 Start, ev 104 End] @ ev 130 Start # []"
    by simp
  have avg: "avgLength (cycle ?st) = 30"
    by simp
  have e7: "\<forall>x \<in> set [ev 100 Start, ev 104 End]. date x \<le> 137"
    and e8: "\<forall>x \<in> set [ev 100 Start, ev 104 End]. date x \<le> 138"
    by (simp_all add: ev_def)
  have le7: "(130::int) \<le> 137" and le8: "(130::int) \<le> 138"
    by simp_all
  have l7: "\<forall>x \<in> set []. 137 < date (x::event)" and l8: "\<forall>x \<in> set []. 138 < date (x::event)"
    by simp_all
  have d7: "(137::int) - 130 \<le> 7"
    by simp
  have d8: "(138::int) - 130 = 8 \<and> 8 < avgLength (cycle ?st)"
    by simp
  have a: "getPhaseForDate ?st 137 = Menstrual"
    using open_period_expires [OF evs e7 le7 l7] d7 by blast
  have b: "getPhaseForDate ?st 138 = Follicular"
    using open_period_expires [OF evs e8 le8 l8] d8 by blast
  from evs a b show ?thesis
    by blast
qed

text \<open>
  C4 as the claim states it fails: seven days after an unclosed start (cycle day 8) the
  date is still Menstrual, not Follicular.
\<close>

theorem open_period_day8_menstrual:
  "events (cycle (performAll [LogPeriodStart (isoDate 2024 1 1)] (factoryDefaults (isoDate 2024 1 8))))
     = [ev (isoDate 2024 1 1) Start]
   \<and> isoDate 2024 1 8 - isoDate 2024 1 1 = 7
   \<and> getPhaseForDate
        (performAll [LogPeriodStart (isoDate 2024 1 1)] (factoryDefaults (isoDate 2024 1 8)))
        (isoDate 2024 1 8) = Menstrual
   \<and> getPhaseForDate
        (performAll [LogPeriodStart (isoDate 2024 1 1)] (factoryDefaults (isoDate 2024 1 8)))
        (isoDate 2024 1 8) \<noteq> Follicular"
  by (simp add: performAll_def factoryDefaults_def logPeriodStart_def closeOpenCycles_def
      push_def sortCycleEvents_def recalculateCycleStats_def ev_def isoDate_def
      getPhaseForDate_def)

section \<open>Properties of the metabolic engine\<close>

subsection \<open>The exponent and the rounding are what they should be\<close>

lemma powi_neg_nat: "(2::rat) powi (- int m) = 1 / 2 ^ m"
  by (simp only: power_int_minus_divide power_int_of_nat)

lemma expo_bounds:
  assumes "x \<noteq> 0"
  shows "2 powi expo x \<le> \<bar>x\<bar>" and "\<bar>x\<bar> < 2 powi (expo x + 1)"
proof -
  let ?a = "\<bar>x\<bar>"
  from assms have apos: "0 < ?a"
    by simp
  have "2 powi expo x \<le> ?a \<and> ?a < 2 powi (expo x + 1)"
  proof (cases "1 \<le> ?a")
    case True
    let ?n = "\<lfloor>?a\<rfloor>"
    from True have pos: "0 < ?n"
      by simp
    define B where "B = nat (bitlen ?n)"
    from bitlen_bounds [OF pos] have lo: "2 ^ nat (bitlen ?n - 1) \<le> ?n" and hi: "?n < 2 ^ B"
      unfolding B_def by blast+
    from pos hi have "(1::int) < 2 ^ B"
      by linarith
    then have "B \<noteq> 0"
      by (cases B) simp_all
    then have b1: "1 \<le> bitlen ?n"
      unfolding B_def by simp
    then have e: "expo x = int (B - 1)" and b: "nat (bitlen ?n - 1) = B - 1"
      using True unfolding B_def by (simp_all add: expo_def Let_def nat_diff_distrib)
    from \<open>B \<noteq> 0\<close> have e1: "expo x + 1 = int B"
      unfolding e by simp
    from lo have "(of_int (2 ^ (B - 1)) :: rat) \<le> of_int ?n"
      unfolding b by (simp only: of_int_le_iff)
    also have "\<dots> \<le> ?a"
      by simp
    finally have l: "2 powi expo x \<le> ?a"
      unfolding e by simp
    from hi have "?n + 1 \<le> 2 ^ B"
      by simp
    then have "(of_int (?n + 1) :: rat) \<le> of_int (2 ^ B)"
      by (simp only: of_int_le_iff)
    moreover have "?a < of_int (?n + 1)"
      by simp linarith
    ultimately have "?a < of_int (2 ^ B)"
      by simp
    then have "?a < 2 powi (expo x + 1)"
      unfolding e1 by simp
    with l show ?thesis
      by simp
  next
    case False
    let ?n = "\<lfloor>1 / ?a\<rfloor>"
    from False apos have "1 \<le> 1 / ?a"
      by (simp add: pos_le_divide_eq)
    then have pos: "0 < ?n"
      by simp
    define K where "K = nat (bitlen ?n)"
    from bitlen_bounds [OF pos] have lo: "2 ^ nat (bitlen ?n - 1) \<le> ?n" and hi: "?n < 2 ^ K"
      unfolding K_def by blast+
    from pos hi have "(1::int) < 2 ^ K"
      by linarith
    then have "K \<noteq> 0"
      by (cases K) simp_all
    then have k: "bitlen ?n = int K" and km: "nat (bitlen ?n - 1) = K - 1"
      unfolding K_def by (simp_all add: nat_diff_distrib)
    from lo have "(of_int (2 ^ (K - 1)) :: rat) \<le> of_int ?n"
      unfolding km by (simp only: of_int_le_iff)
    also have "\<dots> \<le> 1 / ?a"
      by simp
    finally have "2 ^ (K - 1) \<le> 1 / ?a"
      by simp
    with apos have le1: "?a * 2 ^ (K - 1) \<le> 1"
      by (simp add: pos_le_divide_eq mult.commute)
    from hi have "?n + 1 \<le> 2 ^ K"
      by simp
    then have "(of_int (?n + 1) :: rat) \<le> of_int (2 ^ K)"
      by (simp only: of_int_le_iff)
    moreover have "1 / ?a < of_int (?n + 1)"
      by simp linarith
    ultimately have "1 / ?a < 2 ^ K"
      by simp
    with apos have gt1: "1 < ?a * 2 ^ K"
      by (simp add: pos_divide_less_eq mult.commute)
    have km': "nat (int K - 1) = K - 1"
      by simp
    show ?thesis
    proof (cases "?a * 2 ^ (K - 1) = 1")
      case True
      with False have e: "expo x = - int (K - 1)"
        using \<open>K \<noteq> 0\<close> by (simp add: expo_def Let_def k km')
      from True have a: "?a = 1 / 2 ^ (K - 1)"
        by (simp add: field_simps)
      have "2 powi (expo x) = ?a"
        unfolding e powi_neg_nat a ..
      moreover have "(2::rat) powi (- int (K - 1) + 1) = 2 powi (- int (K - 1)) * 2 powi 1"
        by (rule power_int_add) simp
      then have "(2::rat) powi (expo x + 1) = 2 * (1 / 2 ^ (K - 1))"
        unfolding e powi_neg_nat by simp
      then have "(2::rat) powi (expo x + 1) = 2 * ?a"
        by (simp only: a [symmetric])
      ultimately show ?thesis
        using apos by simp
    next
      case neq: False
      with False have e: "expo x = - int K"
        by (simp add: expo_def Let_def k km')
      have e1: "expo x + 1 = - int (K - 1)"
        unfolding e using \<open>K \<noteq> 0\<close> by simp
      from gt1 have "1 / 2 ^ K < ?a"
        by (simp add: pos_divide_less_eq)
      then have l: "2 powi expo x \<le> ?a"
        unfolding e powi_neg_nat by simp
      from le1 neq have "?a * 2 ^ (K - 1) < 1"
        by simp
      then have "?a < 1 / 2 ^ (K - 1)"
        by (simp add: pos_less_divide_eq)
      then have "?a < 2 powi (expo x + 1)"
        unfolding e1 powi_neg_nat .
      with l show ?thesis
        by simp
    qed
  qed
  then show "2 powi expo x \<le> \<bar>x\<bar>" and "\<bar>x\<bar> < 2 powi (expo x + 1)"
    by blast+
qed

lemma roundHalfEven_nearest: "\<bar>x - of_int (roundHalfEven x)\<bar> \<le> 1 / 2"
proof -
  let ?r = "x - of_int \<lfloor>x\<rfloor>"
  have r: "0 \<le> ?r" "?r < 1"
    by linarith+
  consider "?r < 1 / 2" | "1 / 2 < ?r" | "?r = 1 / 2"
    by linarith
  then show ?thesis
  proof cases
    case 1
    then have "roundHalfEven x = \<lfloor>x\<rfloor>"
      by (simp add: roundHalfEven_def Let_def)
    with 1 r show ?thesis
      by simp
  next
    case 2
    then have "roundHalfEven x = \<lfloor>x\<rfloor> + 1"
      by (simp add: roundHalfEven_def Let_def)
    with 2 r show ?thesis
      by simp
  next
    case 3
    then have "roundHalfEven x = \<lfloor>x\<rfloor> \<or> roundHalfEven x = \<lfloor>x\<rfloor> + 1"
      by (simp add: roundHalfEven_def Let_def)
    with 3 show ?thesis
      by (auto simp: abs_if)
  qed
qed

text \<open>
  The rounded value lies within half a unit in the last place of the exact one, the unit
  being \<open>2^(e-52)\<close> for the exponent \<open>e\<close> of the exact value (or -1022 if that is larger).
\<close>

lemma round64_nearest:
  "\<bar>x - round64 x\<bar> \<le> 2 powi (max (expo x) (- 1022) - 52) / 2"
proof (cases "x = 0")
  case True
  then show ?thesis
    by (simp add: round64_def)
next
  case False
  let ?u = "(2::rat) powi (max (expo x) (- 1022) - 52)"
  have u: "0 < ?u"
    by (simp add: power_int_def)
  have "x - round64 x = (x / ?u - of_int (roundHalfEven (x / ?u))) * ?u"
    using False u by (simp add: round64_def Let_def field_simps)
  then have "\<bar>x - round64 x\<bar> = \<bar>x / ?u - of_int (roundHalfEven (x / ?u))\<bar> * ?u"
    using u by (simp add: abs_mult)
  also have "\<dots> \<le> 1 / 2 * ?u"
    using u roundHalfEven_nearest [of "x / ?u"] by (intro mult_right_mono) simp_all
  finally show ?thesis
    by simp
qed

subsection \<open>Rounding and the integers\<close>

lemma roundHalfEven_ge: "of_int m \<le> x \<Longrightarrow> m \<le> roundHalfEven x"
proof -
  assume "of_int m \<le> x"
  then have "m \<le> \<lfloor>x\<rfloor>"
    by (simp add: le_floor_iff)
  moreover have "\<lfloor>x\<rfloor> \<le> roundHalfEven x"
    by (simp add: roundHalfEven_def Let_def)
  ultimately show ?thesis
    by simp
qed

lemma roundHalfEven_le: "x \<le> of_int m \<Longrightarrow> roundHalfEven x \<le> m"
proof (cases "x = of_int m")
  case True
  then show ?thesis
    by (simp add: roundHalfEven_def Let_def)
next
  case False
  assume "x \<le> of_int m"
  with False have "x < of_int m"
    by simp
  then have "\<lfloor>x\<rfloor> < m"
    by (simp only: floor_less_iff)
  then have "\<lfloor>x\<rfloor> + 1 \<le> m"
    by simp
  moreover have "roundHalfEven x \<le> \<lfloor>x\<rfloor> + 1"
    by (simp add: roundHalfEven_def Let_def)
  ultimately show ?thesis
    by simp
qed

lemma expo_le_52:
  assumes "\<bar>x\<bar> < 2 ^ 53"
  shows "expo x \<le> 52"
proof (cases "1 \<le> \<bar>x\<bar>")
  case True
  let ?n = "\<lfloor>\<bar>x\<bar>\<rfloor>"
  from True have pos: "0 < ?n"
    by simp
  from assms have "\<bar>x\<bar> < of_int (2 ^ 53)"
    by simp
  then have lt: "?n < 2 ^ 53"
    by (simp only: floor_less_iff)
  from bitlen_bounds [OF pos] have "2 ^ nat (bitlen ?n - 1) \<le> ?n"
    by blast
  from this lt have "(2::int) ^ nat (bitlen ?n - 1) < 2 ^ 53"
    by (rule le_less_trans)
  then have "nat (bitlen ?n - 1) < 53"
    by (rule power_less_imp_less_exp [rotated]) simp
  with True show ?thesis
    by (simp add: expo_def Let_def)
next
  case False
  have "0 \<le> bitlen \<lfloor>1 / \<bar>x\<bar>\<rfloor>"
    by (rule bitlen_nonneg)
  with False show ?thesis
    by (simp add: expo_def Let_def)
qed

text \<open>
  Below \<open>2^53\<close> every integer is a binary64 value, so rounding never crosses one: an integer
  that bounds the exact value bounds the rounded value from the same side.
\<close>

lemma round64_between_integers:
  assumes "\<bar>y\<bar> < 2 ^ 53"
  shows "of_int m \<le> y \<Longrightarrow> of_int m \<le> round64 y"
    and "y \<le> of_int n \<Longrightarrow> round64 y \<le> of_int n"
proof -
  let ?e = "max (expo y) (- 1022)"
  let ?k = "nat (52 - ?e)"
  let ?u = "(2::rat) powi (?e - 52)"
  from expo_le_52 [OF assms] have e: "?e \<le> 52"
    by simp
  then have "?e - 52 = - int ?k"
    by simp
  then have u: "?u = 1 / 2 ^ ?k"
    by (simp only: power_int_minus_divide power_int_of_nat)
  have r: "round64 y = of_int (roundHalfEven (y * 2 ^ ?k)) / 2 ^ ?k" if "y \<noteq> 0"
    using that by (simp add: round64_def Let_def u del: max.absorb1 max.absorb2 max.absorb3 max.absorb4)
  show "of_int m \<le> round64 y" if "of_int m \<le> y"
  proof (cases "y = 0")
    case True
    with that show ?thesis by (simp add: round64_def)
  next
    case False
    from that have "of_int (m * 2 ^ ?k) \<le> y * 2 ^ ?k"
      by simp
    then have "m * 2 ^ ?k \<le> roundHalfEven (y * 2 ^ ?k)"
      by (rule roundHalfEven_ge)
    then have "(of_int (m * 2 ^ ?k) :: rat) \<le> of_int (roundHalfEven (y * 2 ^ ?k))"
      by (simp only: of_int_le_iff)
    then show ?thesis
      by (simp add: r [OF False] pos_le_divide_eq)
  qed
  show "round64 y \<le> of_int n" if "y \<le> of_int n"
  proof (cases "y = 0")
    case True
    with that show ?thesis by (simp add: round64_def)
  next
    case False
    from that have "y * 2 ^ ?k \<le> of_int (n * 2 ^ ?k)"
      by simp
    then have "roundHalfEven (y * 2 ^ ?k) \<le> n * 2 ^ ?k"
      by (rule roundHalfEven_le)
    then have "(of_int (roundHalfEven (y * 2 ^ ?k)) :: rat) \<le> of_int (n * 2 ^ ?k)"
      by (simp only: of_int_le_iff)
    then show ?thesis
      by (simp add: r [OF False] pos_divide_le_eq)
  qed
qed

lemma binary64_small:
  assumes "\<bar>y\<bar> < 2 ^ 53"
  shows "binary64 y = Fin (round64 y)"
proof -
  from assms have "y \<le> of_int (2 ^ 53)" and "of_int (- (2 ^ 53)) \<le> y"
    by simp_all
  with round64_between_integers [OF assms]
  have "round64 y \<le> of_int (2 ^ 53)" and "of_int (- (2 ^ 53)) \<le> round64 y"
    by blast+
  then have "round64 y \<le> 2 ^ 53" and "- (2 ^ 53) \<le> round64 y"
    by simp_all
  moreover have "(2::rat) ^ 53 < 2 ^ 1024"
    by simp
  ultimately have "round64 y < 2 ^ 1024" and "- (2 ^ 1024) < round64 y"
    by linarith+
  then show ?thesis
    by (simp add: binary64_def Let_def)
qed

text \<open>
  Adding an integer to a finite number and taking the floor: the integer added to the floor
  of the number, or one more.
\<close>

lemma floor_add_rounded:
  assumes "\<bar>x + of_int s\<bar> < 2 ^ 53"
  shows "mathFloor (nadd (Fin x) (Fin (of_int s))) = Fin (of_int \<lfloor>round64 (x + of_int s)\<rfloor>)"
    and "\<lfloor>x\<rfloor> + s \<le> \<lfloor>round64 (x + of_int s)\<rfloor>"
    and "\<lfloor>round64 (x + of_int s)\<rfloor> \<le> \<lfloor>x\<rfloor> + s + 1"
proof -
  let ?y = "x + of_int s"
  show "mathFloor (nadd (Fin x) (Fin (of_int s))) = Fin (of_int \<lfloor>round64 ?y\<rfloor>)"
    by (simp add: nadd_def mathFloor_def binary64_small [OF assms])
  have "of_int (\<lfloor>x\<rfloor> + s) \<le> ?y"
    by simp
  then have "of_int (\<lfloor>x\<rfloor> + s) \<le> round64 ?y"
    by (rule round64_between_integers(1) [OF assms])
  then show "\<lfloor>x\<rfloor> + s \<le> \<lfloor>round64 ?y\<rfloor>"
    by (simp add: le_floor_iff)
  have "?y \<le> of_int (\<lfloor>x\<rfloor> + s + 1)"
    by simp linarith
  then have "round64 ?y \<le> of_int (\<lfloor>x\<rfloor> + s + 1)"
    by (rule round64_between_integers(2) [OF assms])
  then show "\<lfloor>round64 ?y\<rfloor> \<le> \<lfloor>x\<rfloor> + s + 1"
    by (metis floor_mono floor_of_int)
qed


subsection \<open>Evaluating the arithmetic at given numbers\<close>

lemma binary64_eval: "round64 x = r \<Longrightarrow> \<bar>x\<bar> < 2 ^ 53 \<Longrightarrow> binary64 x = Fin r"
  by (simp add: binary64_small)

lemma nmul_eval: "round64 (x * y) = r \<Longrightarrow> \<bar>x * y\<bar> < 2 ^ 53 \<Longrightarrow> nmul (Fin x) (Fin y) = Fin r"
  by (simp add: nmul_def binary64_small)

lemma nadd_eval: "round64 (x + y) = r \<Longrightarrow> \<bar>x + y\<bar> < 2 ^ 53 \<Longrightarrow> nadd (Fin x) (Fin y) = Fin r"
  by (simp add: nadd_def binary64_small)

lemma nsub_eval: "round64 (x - y) = r \<Longrightarrow> \<bar>x - y\<bar> < 2 ^ 53 \<Longrightarrow> nsub (Fin x) (Fin y) = Fin r"
  by (simp add: nsub_def nneg_def nadd_def binary64_small)

lemma ndiv_eval:
  "round64 (x / y) = r \<Longrightarrow> \<bar>x / y\<bar> < 2 ^ 53 \<Longrightarrow> y \<noteq> 0 \<Longrightarrow> ndiv (Fin x) (Fin y) = Fin r"
  by (simp add: ndiv_def binary64_small)

lemma mathFloor_eval: "of_int \<lfloor>x\<rfloor> = r \<Longrightarrow> mathFloor (Fin x) = Fin r"
  by (simp add: mathFloor_def)

text \<open>The literals of the engine, and 50.7 and 1465.12, as binary64 values.\<close>

lemma literals:
  "binary64 21.6 = Fin (3039929748475085 / 2 ^ 47)"
  "binary64 1.2 = Fin (5404319552844595 / 2 ^ 52)"
  "binary64 1.375 = Fin (11 / 2 ^ 3)"
  "binary64 1.55 = Fin (6980579422424269 / 2 ^ 52)"
  "binary64 1.725 = Fin (3884354678607053 / 2 ^ 51)"
  "binary64 1.9 = Fin (4278419646001971 / 2 ^ 51)"
  "binary64 50.7 = Fin (3567695329807565 / 2 ^ 46)"
  "binary64 1465.12 = Fin (1610916476087173 / 2 ^ 40)"
  "binary64 72.01646090534977 = Fin (5067707914029299 / 2 ^ 46)"
  by (rule binary64_eval; code_simp)+

text \<open>
  The steps of the computation: for 65 kg, 70 kg and 72.01646090534977 kg at 22 percent of
  body fat, and for 80 kg at 25 percent.
\<close>

lemma steps_65:
  "ndiv (Fin 22) (Fin 100) = Fin (7926335344172073 / 2 ^ 55)"
  "nsub (Fin 1) (Fin (7926335344172073 / 2 ^ 55)) = Fin (3512807709348987 / 2 ^ 52)"
  "nmul (Fin 65) (Fin (3512807709348987 / 2 ^ 52)) = Fin (3567695329807565 / 2 ^ 46)"
  "nmul (Fin (3039929748475085 / 2 ^ 47)) (Fin (3567695329807565 / 2 ^ 46)) = Fin (4816388695240213 / 2 ^ 42)"
  "nadd (Fin 370) (Fin (4816388695240213 / 2 ^ 42)) = Fin (6443665904348693 / 2 ^ 42)"
  "nmul (Fin (6443665904348693 / 2 ^ 42)) (Fin (6980579422424269 / 2 ^ 52)) = Fin (4993841075870237 / 2 ^ 41)"
  "nadd (Fin (4993841075870237 / 2 ^ 41)) (Fin 150) = Fin (5323694564203037 / 2 ^ 41)"
  "mathFloor (Fin (5323694564203037 / 2 ^ 41)) = Fin 2420"
  by (rule ndiv_eval nsub_eval nmul_eval nadd_eval mathFloor_eval; code_simp)+

lemma floor_65:
  "\<lfloor>4993841075870237 / 2 ^ 41 :: rat\<rfloor> = 2270"
  by code_simp

lemma steps_70:
  "ndiv (Fin 22) (Fin 100) = Fin (7926335344172073 / 2 ^ 55)"
  "nsub (Fin 1) (Fin (7926335344172073 / 2 ^ 55)) = Fin (3512807709348987 / 2 ^ 52)"
  "nmul (Fin 70) (Fin (3512807709348987 / 2 ^ 52)) = Fin (7684266864200909 / 2 ^ 47)"
  "nmul (Fin (3039929748475085 / 2 ^ 47)) (Fin (7684266864200909 / 2 ^ 47)) = Fin (2593440066667807 / 2 ^ 41)"
  "nadd (Fin 370) (Fin (2593440066667807 / 2 ^ 41)) = Fin (3407078671222047 / 2 ^ 41)"
  "nmul (Fin (3407078671222047 / 2 ^ 41)) (Fin (6980579422424269 / 2 ^ 52)) = Fin (5280971940394173 / 2 ^ 41)"
  "nadd (Fin (5280971940394173 / 2 ^ 41)) (Fin 150) = Fin (5610825428726973 / 2 ^ 41)"
  "mathFloor (Fin (5610825428726973 / 2 ^ 41)) = Fin 2551"
  by (rule ndiv_eval nsub_eval nmul_eval nadd_eval mathFloor_eval; code_simp)+

lemma floor_70:
  "\<lfloor>5280971940394173 / 2 ^ 41 :: rat\<rfloor> = 2401"
  by code_simp

lemma steps_72:
  "ndiv (Fin 22) (Fin 100) = Fin (7926335344172073 / 2 ^ 55)"
  "nsub (Fin 1) (Fin (7926335344172073 / 2 ^ 55)) = Fin (3512807709348987 / 2 ^ 52)"
  "nmul (Fin (5067707914029299 / 2 ^ 46)) (Fin (3512807709348987 / 2 ^ 52)) = Fin (7905624345885707 / 2 ^ 47)"
  "nmul (Fin (3039929748475085 / 2 ^ 47)) (Fin (7905624345885707 / 2 ^ 47)) = Fin (5336296433472853 / 2 ^ 42)"
  "nadd (Fin 370) (Fin (5336296433472853 / 2 ^ 42)) = Fin (6963573642581333 / 2 ^ 42)"
  "nmul (Fin (6963573642581333 / 2 ^ 42)) (Fin (5404319552844595 / 2 ^ 52)) = Fin (8356288371097599 / 2 ^ 42)"
  "nadd (Fin (8356288371097599 / 2 ^ 42)) (Fin 150) = Fin 2050"
  "mathFloor (Fin 2050) = Fin 2050"
  by (rule ndiv_eval nsub_eval nmul_eval nadd_eval mathFloor_eval; code_simp)+

lemma floor_72:
  "\<lfloor>8356288371097599 / 2 ^ 42 :: rat\<rfloor> = 1899"
  by code_simp

lemma steps_80:
  "ndiv (Fin 25) (Fin 100) = Fin (1 / 2 ^ 2)"
  "nsub (Fin 1) (Fin (1 / 2 ^ 2)) = Fin (3 / 2 ^ 2)"
  "nmul (Fin 80) (Fin (3 / 2 ^ 2)) = Fin 60"
  "nmul (Fin (3039929748475085 / 2 ^ 47)) (Fin 60) = Fin 1296"
  "nadd (Fin 370) (Fin 1296) = Fin 1666"
  "nmul (Fin 1666) (Fin (3884354678607053 / 2 ^ 51)) = Fin (1579915745742029 / 2 ^ 39)"
  "nadd (Fin (1579915745742029 / 2 ^ 39)) (Fin 0) = Fin (1579915745742029 / 2 ^ 39)"
  "mathFloor (Fin (1579915745742029 / 2 ^ 39)) = Fin 2873"
  by (rule ndiv_eval nsub_eval nmul_eval nadd_eval mathFloor_eval; code_simp)+

lemma floor_80:
  "\<lfloor>1579915745742029 / 2 ^ 39 :: rat\<rfloor> = 2873"
  by code_simp

subsection \<open>The parts of the total\<close>

lemma activity_table:
  "activityLevel (profile st) = ''sedentary'' \<Longrightarrow> activity st = binary64 1.2"
  "activityLevel (profile st) = ''light'' \<Longrightarrow> activity st = binary64 1.375"
  "activityLevel (profile st) = ''moderate'' \<Longrightarrow> activity st = binary64 1.55"
  "activityLevel (profile st) = ''active'' \<Longrightarrow> activity st = binary64 1.725"
  "activityLevel (profile st) = ''athlete'' \<Longrightarrow> activity st = binary64 1.9"
  by (simp_all add: activity_def multipliers_def)

lemma activity_default:
  assumes "activityLevel (profile st) \<notin>
      {''sedentary'', ''light'', ''moderate'', ''active'', ''athlete''}"
    and "activityLevel (profile st) \<notin> set inheritedKeys"
  shows "activity st = binary64 1.55"
  using assms by (simp add: activity_def multipliers_def)

lemma activity_inherited:
  assumes "activityLevel (profile st) \<in> set inheritedKeys"
  shows "activity st = NaN"
proof -
  from assms have "multipliers (activityLevel (profile st)) = None"
    by (auto simp: inheritedKeys_def multipliers_def)
  with assms show ?thesis
    by (simp add: activity_def)
qed

lemma total_of_NaN: "activity st = NaN \<Longrightarrow> calculateKatchMcArdle st = NaN"
  by (simp add: calculateKatchMcArdle_def nmul_def nadd_def mathFloor_def)

lemma currentWeight_cases:
  "weightLog (logs st) (today st) = None \<Longrightarrow> currentWeight st = weight (profile st)"
  "weightLog (logs st) (today st) = Some w \<Longrightarrow>
   currentWeight st = (if truthy w then w else weight (profile st))"
  by (simp_all add: currentWeight_def orElse_def)

lemma total_bounds:
  assumes "nmul (bmr st) (activity st) = Fin x" and "\<bar>x\<bar> + 150 < 2 ^ 53"
  shows "calculateKatchMcArdle st = Fin (of_int \<lfloor>round64 (x + of_int (phaseBurn st))\<rfloor>)"
    and "\<lfloor>x\<rfloor> + phaseBurn st \<le> \<lfloor>round64 (x + of_int (phaseBurn st))\<rfloor>"
    and "\<lfloor>round64 (x + of_int (phaseBurn st))\<rfloor> \<le> \<lfloor>x\<rfloor> + phaseBurn st + 1"
proof -
  have "phaseBurn st = 0 \<or> phaseBurn st = 150"
    by (simp add: phaseBurn_def)
  with assms(2) have small: "\<bar>x + of_int (phaseBurn st)\<bar> < 2 ^ 53"
    by auto
  show "calculateKatchMcArdle st = Fin (of_int \<lfloor>round64 (x + of_int (phaseBurn st))\<rfloor>)"
    unfolding calculateKatchMcArdle_def assms(1) by (rule floor_add_rounded(1) [OF small])
  show "\<lfloor>x\<rfloor> + phaseBurn st \<le> \<lfloor>round64 (x + of_int (phaseBurn st))\<rfloor>"
    by (rule floor_add_rounded(2) [OF small])
  show "\<lfloor>round64 (x + of_int (phaseBurn st))\<rfloor> \<le> \<lfloor>x\<rfloor> + phaseBurn st + 1"
    by (rule floor_add_rounded(3) [OF small])
qed

lemma scenario_65:
  assumes "currentWeight st = Fin 65" and "bodyFat (profile st) = Some (Fin 22)"
    and "activityLevel (profile st) = ''moderate''"
    and "getPhaseForDate st (today st) = Luteal"
  shows "lbm st = Fin (3567695329807565 / 2 ^ 46)"
    and "bmr st = Fin (6443665904348693 / 2 ^ 42)"
    and "nmul (bmr st) (activity st) = Fin (4993841075870237 / 2 ^ 41)"
    and "calculateKatchMcArdle st = Fin 2420"
proof -
  have o: "orElse (bodyFat (profile st)) (Fin 25) = Fin 22"
    by (simp add: assms(2) orElse_def truthy_def)
  show l: "lbm st = Fin (3567695329807565 / 2 ^ 46)"
    by (simp only: lbm_def bodyFatDecimal_def assms(1) o steps_65)
  show b: "bmr st = Fin (6443665904348693 / 2 ^ 42)"
    by (simp only: bmr_def l literals steps_65)
  have a: "activity st = Fin (6980579422424269 / 2 ^ 52)"
    by (simp only: activity_table(3) [OF assms(3)] literals)
  have s: "phaseBurn st = 150"
    by (simp add: phaseBurn_def assms(4))
  show "nmul (bmr st) (activity st) = Fin (4993841075870237 / 2 ^ 41)"
    by (simp only: a b steps_65)
  show "calculateKatchMcArdle st = Fin 2420"
    by (simp only: calculateKatchMcArdle_def a b s of_int_numeral steps_65)
qed

lemma scenario_70:
  assumes "currentWeight st = Fin 70" and "bodyFat (profile st) = Some (Fin 22)"
    and "activityLevel (profile st) = ''moderate''"
    and "getPhaseForDate st (today st) = Luteal"
  shows "calculateKatchMcArdle st = Fin 2551"
proof -
  have o: "orElse (bodyFat (profile st)) (Fin 25) = Fin 22"
    by (simp add: assms(2) orElse_def truthy_def)
  have l: "lbm st = Fin (7684266864200909 / 2 ^ 47)"
    by (simp only: lbm_def bodyFatDecimal_def assms(1) o steps_70)
  have b: "bmr st = Fin (3407078671222047 / 2 ^ 41)"
    by (simp only: bmr_def l literals steps_70)
  have a: "activity st = Fin (6980579422424269 / 2 ^ 52)"
    by (simp only: activity_table(3) [OF assms(3)] literals)
  have s: "phaseBurn st = 150"
    by (simp add: phaseBurn_def assms(4))
  show ?thesis
    by (simp only: calculateKatchMcArdle_def a b s of_int_numeral steps_70)
qed

lemma scenario_72:
  assumes "currentWeight st = binary64 72.01646090534977"
    and "bodyFat (profile st) = Some (Fin 22)"
    and "activityLevel (profile st) = ''sedentary''"
    and "getPhaseForDate st (today st) = Luteal"
  shows "nmul (bmr st) (activity st) = Fin (8356288371097599 / 2 ^ 42)"
    and "calculateKatchMcArdle st = Fin 2050"
proof -
  have o: "orElse (bodyFat (profile st)) (Fin 25) = Fin 22"
    by (simp add: assms(2) orElse_def truthy_def)
  have l: "lbm st = Fin (7905624345885707 / 2 ^ 47)"
    by (simp only: lbm_def bodyFatDecimal_def assms(1) o literals steps_72)
  have b: "bmr st = Fin (6963573642581333 / 2 ^ 42)"
    by (simp only: bmr_def l literals steps_72)
  have a: "activity st = Fin (5404319552844595 / 2 ^ 52)"
    by (simp only: activity_table(1) [OF assms(3)] literals)
  have s: "phaseBurn st = 150"
    by (simp add: phaseBurn_def assms(4))
  show "nmul (bmr st) (activity st) = Fin (8356288371097599 / 2 ^ 42)"
    by (simp only: a b steps_72)
  show "calculateKatchMcArdle st = Fin 2050"
    by (simp only: calculateKatchMcArdle_def a b s of_int_numeral steps_72)
qed

lemma scenario_80:
  assumes "currentWeight st = Fin 80" and "bodyFat (profile st) = None"
    and "activityLevel (profile st) = ''active''"
    and "getPhaseForDate st (today st) \<noteq> Luteal"
  shows "lbm st = Fin 60" and "bmr st = Fin 1666" and "calculateKatchMcArdle st = Fin 2873"
proof -
  have o: "orElse (bodyFat (profile st)) (Fin 25) = Fin 25"
    by (simp add: assms(2) orElse_def)
  show l: "lbm st = Fin 60"
    by (simp only: lbm_def bodyFatDecimal_def assms(1) o steps_80)
  show b: "bmr st = Fin 1666"
    by (simp only: bmr_def l literals steps_80)
  have a: "activity st = Fin (3884354678607053 / 2 ^ 51)"
    by (simp only: activity_table(4) [OF assms(3)] literals)
  have s: "phaseBurn st = 0"
    by (simp add: phaseBurn_def assms(4))
  show "calculateKatchMcArdle st = Fin 2873"
    by (simp only: calculateKatchMcArdle_def a b s of_int_0 steps_80)
qed


subsection \<open>The total\<close>

text \<open>
  C1, as the code has it. The weight that enters is the weight logged today, if there is
  one that is not zero, and the weight of the profile otherwise. The total is
  \<open>Math.floor(bmr * activity + phaseBurn)\<close> in binary64 arithmetic, where the surcharge is
  150 in the Luteal phase and 0 otherwise, the multiplier is 1.2, 1.375, 1.55, 1.725 or 1.9
  by activity level and 1.55 for a level that is not a property of the table, and a level
  that names an inherited property of the table makes the total NaN. While the product
  \<open>bmr * activity\<close> is finite and below \<open>2^53 - 150\<close>, the total is its floor plus the
  surcharge, or one more: the surcharge is added before the floor is taken, and that sum is
  rounded. For a weight of 65 kg, 22 percent of body fat, the level moderate and the Luteal
  phase, the lean body mass is the binary64 value of 50.7, the basal rate is
  1465.1200000000001, one unit in the last place above the binary64 value of 1465.12, and
  the total is 2420. For 80 kg, no body fat given (25 percent then), the level active and
  another phase, the lean body mass is 60, the basal rate 1666 and the total 2873.
\<close>

theorem katch_mcardle_total:
  "(weightLog (logs st) (today st) = None \<longrightarrow> currentWeight st = weight (profile st))
   \<and> (weightLog (logs st) (today st) = Some w \<longrightarrow>
        currentWeight st = (if truthy w then w else weight (profile st)))
   \<and> (truthy w \<longleftrightarrow> w \<noteq> Fin 0 \<and> w \<noteq> NaN)
   \<and> (activityLevel (profile st) = ''sedentary'' \<longrightarrow> activity st = binary64 1.2)
   \<and> (activityLevel (profile st) = ''light'' \<longrightarrow> activity st = binary64 1.375)
   \<and> (activityLevel (profile st) = ''moderate'' \<longrightarrow> activity st = binary64 1.55)
   \<and> (activityLevel (profile st) = ''active'' \<longrightarrow> activity st = binary64 1.725)
   \<and> (activityLevel (profile st) = ''athlete'' \<longrightarrow> activity st = binary64 1.9)
   \<and> (activityLevel (profile st) \<notin>
         {''sedentary'', ''light'', ''moderate'', ''active'', ''athlete''} \<and>
       activityLevel (profile st) \<notin> set inheritedKeys \<longrightarrow> activity st = binary64 1.55)
   \<and> (activityLevel (profile st) \<in> set inheritedKeys \<longrightarrow> calculateKatchMcArdle st = NaN)
   \<and> phaseBurn st = (if getPhaseForDate st (today st) = Luteal then 150 else 0)
   \<and> lbm st = nmul (currentWeight st)
        (nsub (Fin 1) (ndiv (orElse (bodyFat (profile st)) (Fin 25)) (Fin 100)))
   \<and> bmr st = nadd (Fin 370) (nmul (binary64 21.6) (lbm st))
   \<and> calculateKatchMcArdle st =
        mathFloor (nadd (nmul (bmr st) (activity st)) (Fin (of_int (phaseBurn st))))
   \<and> (nmul (bmr st) (activity st) = Fin x \<and> \<bar>x\<bar> + 150 < 2 ^ 53 \<longrightarrow>
        calculateKatchMcArdle st = Fin (of_int \<lfloor>round64 (x + of_int (phaseBurn st))\<rfloor>)
        \<and> \<lfloor>x\<rfloor> + phaseBurn st \<le> \<lfloor>round64 (x + of_int (phaseBurn st))\<rfloor>
        \<and> \<lfloor>round64 (x + of_int (phaseBurn st))\<rfloor> \<le> \<lfloor>x\<rfloor> + phaseBurn st + 1)
   \<and> (currentWeight st = Fin 65 \<and> bodyFat (profile st) = Some (Fin 22) \<and>
       activityLevel (profile st) = ''moderate'' \<and> getPhaseForDate st (today st) = Luteal
      \<longrightarrow> lbm st = binary64 50.7
        \<and> bmr st = Fin (round64 1465.12 + 1 / 2 ^ 42)
        \<and> bmr st = Fin (6443665904348693 / 2 ^ 42)
        \<and> nmul (bmr st) (activity st) = Fin (4993841075870237 / 2 ^ 41)
        \<and> \<lfloor>4993841075870237 / 2 ^ 41 :: rat\<rfloor> + 150 = 2420
        \<and> calculateKatchMcArdle st = Fin 2420)
   \<and> (currentWeight st = Fin 80 \<and> bodyFat (profile st) = None \<and>
       activityLevel (profile st) = ''active'' \<and> getPhaseForDate st (today st) \<noteq> Luteal
      \<longrightarrow> lbm st = Fin 60 \<and> bmr st = Fin 1666 \<and> calculateKatchMcArdle st = Fin 2873)"
proof -
  have r: "round64 1465.12 + 1 / 2 ^ 42 = (6443665904348693 / 2 ^ 42 :: rat)"
    by code_simp
  have fl: "\<lfloor>4993841075870237 / 2 ^ 41 :: rat\<rfloor> + 150 = 2420"
    by (simp only: floor_65)
  have s65: "lbm st = binary64 50.7 \<and> bmr st = Fin (round64 1465.12 + 1 / 2 ^ 42)
      \<and> bmr st = Fin (6443665904348693 / 2 ^ 42)
      \<and> nmul (bmr st) (activity st) = Fin (4993841075870237 / 2 ^ 41)
      \<and> \<lfloor>4993841075870237 / 2 ^ 41 :: rat\<rfloor> + 150 = 2420
      \<and> calculateKatchMcArdle st = Fin 2420"
    if "currentWeight st = Fin 65 \<and> bodyFat (profile st) = Some (Fin 22) \<and>
       activityLevel (profile st) = ''moderate'' \<and> getPhaseForDate st (today st) = Luteal"
  proof -
    from that have h: "currentWeight st = Fin 65" "bodyFat (profile st) = Some (Fin 22)"
      "activityLevel (profile st) = ''moderate''" "getPhaseForDate st (today st) = Luteal"
      by simp_all
    note s = scenario_65 [OF h]
    have "lbm st = binary64 50.7"
      by (simp only: s(1) literals)
    moreover have "bmr st = Fin (round64 1465.12 + 1 / 2 ^ 42)"
      by (simp only: s(2) r)
    ultimately show ?thesis
      using s fl by blast
  qed
  have s80: "lbm st = Fin 60 \<and> bmr st = Fin 1666 \<and> calculateKatchMcArdle st = Fin 2873"
    if "currentWeight st = Fin 80 \<and> bodyFat (profile st) = None \<and>
       activityLevel (profile st) = ''active'' \<and> getPhaseForDate st (today st) \<noteq> Luteal"
  proof -
    from that have h: "currentWeight st = Fin 80" "bodyFat (profile st) = None"
      "activityLevel (profile st) = ''active''" "getPhaseForDate st (today st) \<noteq> Luteal"
      by simp_all
    from scenario_80 [OF h] show ?thesis
      by blast
  qed
  have bounds: "calculateKatchMcArdle st = Fin (of_int \<lfloor>round64 (x + of_int (phaseBurn st))\<rfloor>)
        \<and> \<lfloor>x\<rfloor> + phaseBurn st \<le> \<lfloor>round64 (x + of_int (phaseBurn st))\<rfloor>
        \<and> \<lfloor>round64 (x + of_int (phaseBurn st))\<rfloor> \<le> \<lfloor>x\<rfloor> + phaseBurn st + 1"
    if "nmul (bmr st) (activity st) = Fin x \<and> \<bar>x\<bar> + 150 < 2 ^ 53"
  proof -
    from that have h: "nmul (bmr st) (activity st) = Fin x" "\<bar>x\<bar> + 150 < 2 ^ 53"
      by blast+
    from total_bounds [OF h] show ?thesis
      by blast
  qed
  have nan: "calculateKatchMcArdle st = NaN" if "activityLevel (profile st) \<in> set inheritedKeys"
    using that by (intro total_of_NaN activity_inherited)
  have dflt: "activity st = binary64 1.55"
    if "activityLevel (profile st) \<notin>
         {''sedentary'', ''light'', ''moderate'', ''active'', ''athlete''} \<and>
       activityLevel (profile st) \<notin> set inheritedKeys"
    using that by (intro activity_default) blast+
  have pb: "phaseBurn st = (if getPhaseForDate st (today st) = Luteal then 150 else 0)"
    by (simp add: phaseBurn_def)
  have l: "lbm st = nmul (currentWeight st)
        (nsub (Fin 1) (ndiv (orElse (bodyFat (profile st)) (Fin 25)) (Fin 100)))"
    by (simp only: lbm_def bodyFatDecimal_def)
  have b: "bmr st = nadd (Fin 370) (nmul (binary64 21.6) (lbm st))"
    by (simp only: bmr_def)
  have t: "calculateKatchMcArdle st =
        mathFloor (nadd (nmul (bmr st) (activity st)) (Fin (of_int (phaseBurn st))))"
    by (simp only: calculateKatchMcArdle_def)
  have tr: "truthy w \<longleftrightarrow> w \<noteq> Fin 0 \<and> w \<noteq> NaN"
    by (cases w) (simp_all add: truthy_def)
  from currentWeight_cases [of st] currentWeight_cases(2) [of st w] activity_table [of st]
    tr dflt nan pb l b t bounds s65 s80
  show ?thesis
    by blast
qed

theorem katch_mcardle_total_witness:
  "currentWeight ((factoryDefaults 20)\<lparr>cycle := \<lparr>events = [ev 0 Start], avgLength = 29\<rparr>\<rparr>)
     = Fin 65
   \<and> bodyFat (profile ((factoryDefaults 20)\<lparr>cycle := \<lparr>events = [ev 0 Start], avgLength = 29\<rparr>\<rparr>))
       = Some (Fin 22)
   \<and> activityLevel (profile ((factoryDefaults 20)\<lparr>cycle := \<lparr>events = [ev 0 Start], avgLength = 29\<rparr>\<rparr>))
       = ''moderate''
   \<and> getPhaseForDate ((factoryDefaults 20)\<lparr>cycle := \<lparr>events = [ev 0 Start], avgLength = 29\<rparr>\<rparr>) 20
       = Luteal
   \<and> calculateKatchMcArdle ((factoryDefaults 20)\<lparr>cycle := \<lparr>events = [ev 0 Start], avgLength = 29\<rparr>\<rparr>)
       = Fin 2420
   \<and> weight (profile ((factoryDefaults 20)
        \<lparr>cycle := \<lparr>events = [ev 0 Start], avgLength = 29\<rparr>,
         profile := \<lparr>weight = Fin 70, bodyFat = Some (Fin 22), activityLevel = ''moderate''\<rparr>,
         logs := \<lparr>nutrition = Map.empty, workouts = Map.empty,
                   weightLog = [20 \<mapsto> Fin 65]\<rparr>\<rparr>)) = Fin 70
   \<and> calculateKatchMcArdle ((factoryDefaults 20)
        \<lparr>cycle := \<lparr>events = [ev 0 Start], avgLength = 29\<rparr>,
         profile := \<lparr>weight = Fin 70, bodyFat = Some (Fin 22), activityLevel = ''moderate''\<rparr>,
         logs := \<lparr>nutrition = Map.empty, workouts = Map.empty,
                   weightLog = [20 \<mapsto> Fin 65]\<rparr>\<rparr>) = Fin 2420"
proof -
  let ?st = "(factoryDefaults 20)\<lparr>cycle := \<lparr>events = [ev 0 Start], avgLength = 29\<rparr>\<rparr>"
  let ?lg = "(factoryDefaults 20)
        \<lparr>cycle := \<lparr>events = [ev 0 Start], avgLength = 29\<rparr>,
         profile := \<lparr>weight = Fin 70, bodyFat = Some (Fin 22), activityLevel = ''moderate''\<rparr>,
         logs := \<lparr>nutrition = Map.empty, workouts = Map.empty,
                   weightLog = [20 \<mapsto> Fin 65]\<rparr>\<rparr>"
  have td: "today ?st = 20"
    by (simp add: factoryDefaults_def)
  have ph: "getPhaseForDate ?st 20 = Luteal"
    by (simp add: getPhaseForDate_def phaseMath_def ev_def jsRem_def phaseOfCycleDay_def)
  have cw: "currentWeight ?st = Fin 65"
    by (simp add: factoryDefaults_def currentWeight_def orElse_def)
  have pr: "bodyFat (profile ?st) = Some (Fin 22) \<and> activityLevel (profile ?st) = ''moderate''"
    by (simp add: factoryDefaults_def)
  from ph td have ph': "getPhaseForDate ?st (today ?st) = Luteal"
    by simp
  from katch_mcardle_total [of ?st] cw pr ph' have a: "calculateKatchMcArdle ?st = Fin 2420"
    by blast
  have wl: "weight (profile ?lg) = Fin 70"
    by simp
  have cl: "currentWeight ?lg = Fin 65"
    by (simp add: factoryDefaults_def currentWeight_def orElse_def truthy_def)
  have pl: "bodyFat (profile ?lg) = Some (Fin 22) \<and> activityLevel (profile ?lg) = ''moderate''"
    by simp
  have phl: "getPhaseForDate ?lg (today ?lg) = Luteal"
    by (simp add: factoryDefaults_def getPhaseForDate_def phaseMath_def ev_def jsRem_def
        phaseOfCycleDay_def)
  from katch_mcardle_total [of ?lg] cl pl phl have b: "calculateKatchMcArdle ?lg = Fin 2420"
    by blast
  from cw pr ph a wl b show ?thesis
    by blast
qed

text \<open>
  C1 as the claim states it fails, twice. The weight of the profile is not what enters when
  a weight is logged today: with 65 kg in the profile and 70 kg logged today, the rest as in
  the scenario, the total is 2551. And the total is not always the floor of the product plus
  the surcharge: at 72.01646090534977 kg, 22 percent of body fat, the level sedentary and
  the Luteal phase, the product is just below 1900, its floor plus 150 is 2049, and the sum
  rounds to 2050, which is the total.
\<close>

theorem katch_mcardle_claimed_total_fails:
  "weight (profile ((factoryDefaults 20)
      \<lparr>cycle := \<lparr>events = [ev 0 Start], avgLength = 29\<rparr>,
       logs := \<lparr>nutrition = Map.empty, workouts = Map.empty, weightLog = [20 \<mapsto> Fin 70]\<rparr>\<rparr>))
     = Fin 65
   \<and> calculateKatchMcArdle ((factoryDefaults 20)
      \<lparr>cycle := \<lparr>events = [ev 0 Start], avgLength = 29\<rparr>,
       logs := \<lparr>nutrition = Map.empty, workouts = Map.empty, weightLog = [20 \<mapsto> Fin 70]\<rparr>\<rparr>)
     = Fin 2551
   \<and> nmul (bmr ((factoryDefaults 20)
        \<lparr>cycle := \<lparr>events = [ev 0 Start], avgLength = 29\<rparr>,
         profile := \<lparr>weight = binary64 72.01646090534977, bodyFat = Some (Fin 22),
                      activityLevel = ''sedentary''\<rparr>\<rparr>))
      (activity ((factoryDefaults 20)
        \<lparr>cycle := \<lparr>events = [ev 0 Start], avgLength = 29\<rparr>,
         profile := \<lparr>weight = binary64 72.01646090534977, bodyFat = Some (Fin 22),
                      activityLevel = ''sedentary''\<rparr>\<rparr>))
     = Fin (8356288371097599 / 2 ^ 42)
   \<and> \<lfloor>8356288371097599 / 2 ^ 42 :: rat\<rfloor> + 150 = 2049
   \<and> calculateKatchMcArdle ((factoryDefaults 20)
        \<lparr>cycle := \<lparr>events = [ev 0 Start], avgLength = 29\<rparr>,
         profile := \<lparr>weight = binary64 72.01646090534977, bodyFat = Some (Fin 22),
                      activityLevel = ''sedentary''\<rparr>\<rparr>)
     = Fin 2050"
proof -
  let ?a = "(factoryDefaults 20)
      \<lparr>cycle := \<lparr>events = [ev 0 Start], avgLength = 29\<rparr>,
       logs := \<lparr>nutrition = Map.empty, workouts = Map.empty, weightLog = [20 \<mapsto> Fin 70]\<rparr>\<rparr>"
  let ?b = "(factoryDefaults 20)
        \<lparr>cycle := \<lparr>events = [ev 0 Start], avgLength = 29\<rparr>,
         profile := \<lparr>weight = binary64 72.01646090534977, bodyFat = Some (Fin 22),
                      activityLevel = ''sedentary''\<rparr>\<rparr>"
  have pa: "getPhaseForDate ?a (today ?a) = Luteal"
    by (simp add: factoryDefaults_def getPhaseForDate_def phaseMath_def ev_def jsRem_def
        phaseOfCycleDay_def)
  have pb: "getPhaseForDate ?b (today ?b) = Luteal"
    by (simp add: factoryDefaults_def getPhaseForDate_def phaseMath_def ev_def jsRem_def
        phaseOfCycleDay_def)
  have wa: "weight (profile ?a) = Fin 65"
    by (simp add: factoryDefaults_def)
  have ca: "currentWeight ?a = Fin 70"
    by (simp add: factoryDefaults_def currentWeight_def orElse_def truthy_def)
  have ba: "bodyFat (profile ?a) = Some (Fin 22)" "activityLevel (profile ?a) = ''moderate''"
    by (simp_all add: factoryDefaults_def)
  have cb: "currentWeight ?b = binary64 72.01646090534977"
    by (simp add: factoryDefaults_def currentWeight_def orElse_def)
  have bb: "bodyFat (profile ?b) = Some (Fin 22)" "activityLevel (profile ?b) = ''sedentary''"
    by simp_all
  have fl: "\<lfloor>8356288371097599 / 2 ^ 42 :: rat\<rfloor> + 150 = 2049"
    by (simp only: floor_72)
  from wa scenario_70 [OF ca ba pa] scenario_72 [OF cb bb pb] fl show ?thesis
    by blast
qed


section \<open>Properties of the daily totals\<close>

lemma foldl_macros:
  "foldl (\<lambda>acc item.
            \<lparr>cals = cals acc + cals item, p = p acc + p item, c = c acc + c item,
             f = f acc + f item, fiber = fiber acc + fiber item\<rparr>) a ns
   = \<lparr>cals = cals a + sum_list (map cals ns), p = p a + sum_list (map p ns),
      c = c a + sum_list (map c ns), f = f a + sum_list (map f ns),
      fiber = fiber a + sum_list (map fiber ns)\<rparr>"
  by (induction ns arbitrary: a) (simp_all add: add.assoc)

lemma foldl_burn:
  "foldl (\<lambda>acc item. acc + orZero (item ''burn'')) a ws
   = a + sum_list (map (\<lambda>item. orZero (item ''burn'')) ws)"
  by (induction ws arbitrary: a) (simp_all add: add.assoc)

lemma burn_of_logged: "orZero (([''id'' \<mapsto> now] ++ w) ''burn'') = orZero (w ''burn'')"
  by (simp add: map_add_def orZero_def split: option.splits)

text \<open>
  C9, as the code has it. For every date the totals are the sums, component by component,
  of the \<open>cals\<close>, \<open>p\<close>, \<open>c\<close>, \<open>f\<close> and \<open>fiber\<close> of the date's nutrition entries, and the burn
  total is the sum of the \<open>burn\<close> properties of the date's workout entries, an entry without
  one counting 0. A workout logged with \<open>logWorkout\<close> adds its \<open>burn\<close> property to the total
  of its date and leaves the rest as it was. A date with no entries has all totals 0. The
  model has no error to raise.
\<close>

theorem daily_totals:
  "macros (getDailyStats st d)
     = \<lparr>cals = sum_list (map cals (orEmpty (nutrition (logs st) d))),
        p = sum_list (map p (orEmpty (nutrition (logs st) d))),
        c = sum_list (map c (orEmpty (nutrition (logs st) d))),
        f = sum_list (map f (orEmpty (nutrition (logs st) d))),
        fiber = sum_list (map fiber (orEmpty (nutrition (logs st) d)))\<rparr>
   \<and> burn (getDailyStats st d)
     = sum_list (map (\<lambda>item. orZero (item ''burn'')) (orEmpty (workouts (logs st) d)))
   \<and> burn (getDailyStats (logWorkout d w now st) d)
     = burn (getDailyStats st d) + orZero (w ''burn'')
   \<and> macros (getDailyStats (logWorkout d w now st) d) = macros (getDailyStats st d)
   \<and> (d' \<noteq> d \<longrightarrow> getDailyStats (logWorkout d w now st) d' = getDailyStats st d')
   \<and> (nutrition (logs st) d = None \<and> workouts (logs st) d = None \<longrightarrow>
        getDailyStats st d = \<lparr>macros = \<lparr>cals = 0, p = 0, c = 0, f = 0, fiber = 0\<rparr>, burn = 0\<rparr>)"
proof (intro conjI impI)
  show "macros (getDailyStats st d)
     = \<lparr>cals = sum_list (map cals (orEmpty (nutrition (logs st) d))),
        p = sum_list (map p (orEmpty (nutrition (logs st) d))),
        c = sum_list (map c (orEmpty (nutrition (logs st) d))),
        f = sum_list (map f (orEmpty (nutrition (logs st) d))),
        fiber = sum_list (map fiber (orEmpty (nutrition (logs st) d)))\<rparr>"
    by (simp add: getDailyStats_def Let_def foldl_macros)
  show "burn (getDailyStats st d)
     = sum_list (map (\<lambda>item. orZero (item ''burn'')) (orEmpty (workouts (logs st) d)))"
    by (simp add: getDailyStats_def Let_def foldl_burn)
  show "burn (getDailyStats (logWorkout d w now st) d)
     = burn (getDailyStats st d) + orZero (w ''burn'')"
    by (simp add: getDailyStats_def Let_def foldl_burn logWorkout_def orEmpty_def burn_of_logged)
  show "macros (getDailyStats (logWorkout d w now st) d) = macros (getDailyStats st d)"
    by (simp add: getDailyStats_def Let_def logWorkout_def)
  show "getDailyStats (logWorkout d w now st) d' = getDailyStats st d'" if "d' \<noteq> d"
    using that by (simp add: getDailyStats_def Let_def logWorkout_def)
  show "getDailyStats st d = \<lparr>macros = \<lparr>cals = 0, p = 0, c = 0, f = 0, fiber = 0\<rparr>, burn = 0\<rparr>"
    if "nutrition (logs st) d = None \<and> workouts (logs st) d = None"
    using that by (simp add: getDailyStats_def Let_def orEmpty_def)
qed

theorem daily_totals_witness:
  "nutrition (logs (factoryDefaults 3)) 3 = None \<and> workouts (logs (factoryDefaults 3)) 3 = None
   \<and> getDailyStats (factoryDefaults 3) 3
       = \<lparr>macros = \<lparr>cals = 0, p = 0, c = 0, f = 0, fiber = 0\<rparr>, burn = 0\<rparr>
   \<and> (4::int) \<noteq> 3
   \<and> getDailyStats (logWorkout 3 [''burn'' \<mapsto> 250] 17 (factoryDefaults 3)) 4
       = \<lparr>macros = \<lparr>cals = 0, p = 0, c = 0, f = 0, fiber = 0\<rparr>, burn = 0\<rparr>
   \<and> burn (getDailyStats (logWorkout 3 [''burn'' \<mapsto> 250] 17 (factoryDefaults 3)) 3) = 250"
proof -
  let ?st = "factoryDefaults 3"
  have n: "nutrition (logs ?st) 3 = None \<and> workouts (logs ?st) 3 = None"
    and n4: "nutrition (logs ?st) 4 = None \<and> workouts (logs ?st) 4 = None"
    by (simp_all add: factoryDefaults_def)
  have ne: "(4::int) \<noteq> 3"
    by simp
  note t3 = daily_totals [of ?st 3 "[''burn'' \<mapsto> 250]" 17 4]
  note t4 = daily_totals [of ?st 4 "[''burn'' \<mapsto> 250]" 17 4]
  from t3 n have z3: "getDailyStats ?st 3
      = \<lparr>macros = \<lparr>cals = 0, p = 0, c = 0, f = 0, fiber = 0\<rparr>, burn = 0\<rparr>"
    by blast
  from t4 n4 have z4: "getDailyStats ?st 4
      = \<lparr>macros = \<lparr>cals = 0, p = 0, c = 0, f = 0, fiber = 0\<rparr>, burn = 0\<rparr>"
    by blast
  from t3 ne have "getDailyStats (logWorkout 3 [''burn'' \<mapsto> 250] 17 ?st) 4 = getDailyStats ?st 4"
    by blast
  with z4 have o: "getDailyStats (logWorkout 3 [''burn'' \<mapsto> 250] 17 ?st) 4
      = \<lparr>macros = \<lparr>cals = 0, p = 0, c = 0, f = 0, fiber = 0\<rparr>, burn = 0\<rparr>"
    by simp
  from t3 have "burn (getDailyStats (logWorkout 3 [''burn'' \<mapsto> 250] 17 ?st) 3)
      = burn (getDailyStats ?st 3) + orZero ([''burn'' \<mapsto> 250] ''burn'')"
    by blast
  with z3 have b: "burn (getDailyStats (logWorkout 3 [''burn'' \<mapsto> 250] 17 ?st) 3) = 250"
    by (simp add: orZero_def)
  from n z3 ne o b show ?thesis
    by blast
qed

text \<open>
  C9 as the claim states it fails. The claim adds up the \<open>caloriesBurned\<close> values of the
  workouts logged with \<open>logWorkout\<close>. \<open>getDailyStats\<close> reads the property \<open>burn\<close>: a workout
  of 300 kcal that carries \<open>caloriesBurned\<close>, as the entries of the specification's data
  model do, leaves the burn total of its date at 0.
\<close>

theorem daily_burn_ignores_caloriesBurned:
  "sum_list (map caloriesBurned
      (orEmpty (workouts (logs
        (logWorkout 3 [''durationMinutes'' \<mapsto> 30, ''caloriesBurned'' \<mapsto> 300] 17
          (factoryDefaults 3))) 3))) = 300
   \<and> burn (getDailyStats
        (logWorkout 3 [''durationMinutes'' \<mapsto> 30, ''caloriesBurned'' \<mapsto> 300] 17
          (factoryDefaults 3)) 3) = 0"
  by (simp add: logWorkout_def getDailyStats_def factoryDefaults_def orEmpty_def orZero_def
      caloriesBurned_def map_add_def Let_def)

end
